theory Spec2Isabelle
  imports Complex_Main
begin

section \<open>Strings and numbers of the bot\<close>

text \<open>
  The repository holds two variants of one Telegram bot: \<^verbatim>\<open>src/bot.js\<close> (fuzzy-library
  name search, ten-candidate haversine shortlist before the routing call) and
  \<^verbatim>\<open>src/unnamed/part_000\<close> (hand-written Levenshtein score with a 0.3 threshold, routing
  call over the whole catalog). The functions \<^verbatim>\<open>normalizeText\<close> and
  \<^verbatim>\<open>extractNameAfterDash\<close> are the same in both.

  A JavaScript string is modelled as a \<^typ>\<open>string\<close> whose characters are the code units
  U+0000 to U+00FF (Latin-1); on that range \<^verbatim>\<open>toLowerCase\<close>, \<^verbatim>\<open>trim\<close> and the
  regular expressions of the source are modelled exactly. A JavaScript number is
  modelled as a \<^typ>\<open>real\<close>: rounding and NaN are left out.
\<close>

subsection \<open>Text normalisation\<close>

text \<open>\<^verbatim>\<open>String.prototype.toLowerCase\<close> on one Latin-1 code unit: A-Z and the accented
  capitals U+00C0 to U+00DE (the multiplication sign U+00D7 apart) move up by 32.\<close>

definition toLowerCaseChar :: "char \<Rightarrow> char" where
  "toLowerCaseChar c =
     (let n = (of_char c :: nat)
      in if (65 \<le> n \<and> n \<le> 90) \<or> (192 \<le> n \<and> n \<le> 222 \<and> n \<noteq> 215)
         then char_of (n + 32) else c)"

definition toLowerCase :: "string \<Rightarrow> string" where
  "toLowerCase s = map toLowerCaseChar s"

text \<open>The class \<^verbatim>\<open>\s\<close> (and the characters \<^verbatim>\<open>trim\<close> strips) on Latin-1: tab, line feed,
  vertical tab, form feed, carriage return, space and the no-break space.\<close>

definition isSpace :: "char \<Rightarrow> bool" where
  "isSpace c = ((of_char c :: nat) \<in> {9, 10, 11, 12, 13, 32, 160})"

text \<open>\<^verbatim>\<open>/[aeiou]/gi\<close>, \<^verbatim>\<open>/t/gi\<close> and \<^verbatim>\<open>/k/gi\<close>: with the \<^verbatim>\<open>i\<close> flag a letter
  matches in both cases.\<close>

definition isVowel :: "char \<Rightarrow> bool" where
  "isVowel c = (c \<in> set ''aeiouAEIOU'')"

definition isT :: "char \<Rightarrow> bool" where
  "isT c = (c = CHR ''t'' \<or> c = CHR ''T'')"

definition isK :: "char \<Rightarrow> bool" where
  "isK c = (c = CHR ''k'' \<or> c = CHR ''K'')"

text \<open>\<^verbatim>\<open>.replace(/iya/gi, 'ia')\<close>: the matches are found left to right and do not
  overlap; the scan goes on after the end of a match.\<close>

fun replace_iya :: "string \<Rightarrow> string" where
  "replace_iya (c1 # c2 # c3 # cs) =
     (if (c1 = CHR ''i'' \<or> c1 = CHR ''I'') \<and> (c2 = CHR ''y'' \<or> c2 = CHR ''Y'')
         \<and> (c3 = CHR ''a'' \<or> c3 = CHR ''A'')
      then CHR ''i'' # CHR ''a'' # replace_iya cs
      else c1 # replace_iya (c2 # c3 # cs))"
| "replace_iya cs = cs"

definition remove_vowels :: "string \<Rightarrow> string" where
  "remove_vowels s = filter (\<lambda>c. \<not> isVowel c) s"

definition replace_t :: "string \<Rightarrow> string" where
  "replace_t s = map (\<lambda>c. if isT c then CHR ''x'' else c) s"

definition replace_k :: "string \<Rightarrow> string" where
  "replace_k s = map (\<lambda>c. if isK c then CHR ''q'' else c) s"

definition remove_spaces :: "string \<Rightarrow> string" where
  "remove_spaces s = filter (\<lambda>c. \<not> isSpace c) s"

definition normalizeText :: "string \<Rightarrow> string" where
  "normalizeText text =
     remove_spaces (replace_k (replace_t (remove_vowels (replace_iya (toLowerCase text)))))"

text \<open>A character that no stage of the pipeline changes or removes.\<close>

definition settled :: "char \<Rightarrow> bool" where
  "settled c = (toLowerCaseChar c = c \<and> \<not> isVowel c \<and> \<not> isT c \<and> \<not> isK c \<and> \<not> isSpace c)"

subsection \<open>The comparable name of an ATM\<close>

text \<open>\<^verbatim>\<open>fullName.split('-')\<close>: the pieces between the dashes, in order; a string without
  a dash (the empty string too) gives one piece.\<close>

fun split_dash :: "string \<Rightarrow> string list" where
  "split_dash [] = [[]]"
| "split_dash (c # cs) =
     (if c = CHR ''-'' then [] # split_dash cs
      else (case split_dash cs of
              [] \<Rightarrow> [[c]]
            | p # ps \<Rightarrow> (c # p) # ps))"

definition trim :: "string \<Rightarrow> string" where
  "trim s = rev (dropWhile isSpace (rev (dropWhile isSpace s)))"

definition extractNameAfterDash :: "string \<Rightarrow> string" where
  "extractNameAfterDash fullName =
     (let parts = split_dash fullName
      in if length parts > 1 then trim (parts ! 1) else trim fullName)"

text \<open>The comparable name in the specification's words: the token after the last
  delimiter, or the whole name when there is none, trimmed.\<close>

definition after_last_dash :: "string \<Rightarrow> string" where
  "after_last_dash s = rev (takeWhile (\<lambda>c. c \<noteq> CHR ''-'') (rev s))"

definition spec_comparable_name :: "string \<Rightarrow> string" where
  "spec_comparable_name s = trim (after_last_dash s)"

text \<open>The token between the first dash and the next one (or the end of the string).\<close>

definition after_first_dash :: "string \<Rightarrow> string" where
  "after_first_dash s =
     takeWhile (\<lambda>c. c \<noteq> CHR ''-'') (tl (dropWhile (\<lambda>c. c \<noteq> CHR ''-'') s))"

section \<open>Name search of \<^verbatim>\<open>src/unnamed/part_000\<close>\<close>

subsection \<open>Similarity score\<close>

text \<open>\<^verbatim>\<open>s.includes(t)\<close>: \<open>t\<close> occurs in \<open>s\<close> as a contiguous run; the empty string occurs
  in every string.\<close>

fun includes_str :: "string \<Rightarrow> string \<Rightarrow> bool" where
  "includes_str [] t = (t = [])"
| "includes_str (c # cs) t = (take (length t) (c # cs) = t \<or> includes_str cs t)"

text \<open>The assignment \<^verbatim>\<open>dp[i][j] = v\<close> on the table, a list of rows.\<close>

definition set_cell :: "nat list list \<Rightarrow> nat \<Rightarrow> nat \<Rightarrow> nat \<Rightarrow> nat list list" where
  "set_cell t i j v = t[i := (t ! i)[j := v]]"

text \<open>The body of the inner loop, for one cell.\<close>

definition fill_cell :: "string \<Rightarrow> string \<Rightarrow> nat \<Rightarrow> nat \<Rightarrow> nat list list \<Rightarrow> nat list list" where
  "fill_cell norm1 norm2 i j t =
     (if norm1 ! (i - 1) = norm2 ! (j - 1)
      then set_cell t i j (t ! (i - 1) ! (j - 1))
      else set_cell t i j
             (min (t ! (i - 1) ! j + 1) (min (t ! i ! (j - 1) + 1) (t ! (i - 1) ! (j - 1) + 1))))"

text \<open>The Levenshtein table \<^verbatim>\<open>dp\<close> as the loops leave it: \<open>m + 1\<close> rows of \<open>n + 1\<close> zeros,
  then column 0 and row 0, then the rows 1 to \<open>m\<close>, each from column 1 to \<open>n\<close>.\<close>

definition dp :: "string \<Rightarrow> string \<Rightarrow> nat list list" where
  "dp norm1 norm2 =
     (let m = length norm1; n = length norm2;
          t0 = replicate (m + 1) (replicate (n + 1) 0);
          t1 = fold (\<lambda>i t. set_cell t i 0 i) [0..<m + 1] t0;
          t2 = fold (\<lambda>j t. set_cell t 0 j j) [0..<n + 1] t1
      in fold (\<lambda>i t. fold (\<lambda>j t. fill_cell norm1 norm2 i j t) [1..<n + 1] t) [1..<m + 1] t2)"

definition getSimilarityScore :: "string \<Rightarrow> string \<Rightarrow> real" where
  "getSimilarityScore str1 str2 =
     (let norm1 = normalizeText str1; norm2 = normalizeText str2
      in if norm1 = norm2 then 1
         else if includes_str norm1 norm2 \<or> includes_str norm2 norm1 then 0.8
         else
           (let m = length norm1; n = length norm2
            in if m = 0 then (if n = 0 then 1 else 0)
               else if n = 0 then 0
               else
                 (let maxLen = max m n;
                      similarity = 1 - real (dp norm1 norm2 ! m ! n) / real maxLen
                  in similarity)))"

text \<open>The recurrence the loops compute, entry by entry, and the invariant that ties the
  table to it: the table has its shape, and row 0, column 0, the rows before \<open>k\<close> and
  the first \<open>l\<close> cells of row \<open>k\<close> hold the entries of the recurrence.\<close>

fun dp_entry :: "string \<Rightarrow> string \<Rightarrow> nat \<Rightarrow> nat \<Rightarrow> nat" where
  "dp_entry norm1 norm2 0 j = j"
| "dp_entry norm1 norm2 (Suc i) 0 = Suc i"
| "dp_entry norm1 norm2 (Suc i) (Suc j) =
     (if norm1 ! i = norm2 ! j then dp_entry norm1 norm2 i j
      else min (dp_entry norm1 norm2 i (Suc j) + 1)
             (min (dp_entry norm1 norm2 (Suc i) j + 1) (dp_entry norm1 norm2 i j + 1)))"

definition shape :: "nat \<Rightarrow> nat \<Rightarrow> nat list list \<Rightarrow> bool" where
  "shape m n t = (length t = m + 1 \<and> (\<forall>i \<le> m. length (t ! i) = n + 1))"

definition filled ::
  "string \<Rightarrow> string \<Rightarrow> nat \<Rightarrow> nat \<Rightarrow> nat \<Rightarrow> nat \<Rightarrow> nat list list \<Rightarrow> bool" where
  "filled a b m n k l t =
     (shape m n t \<and>
      (\<forall>i j. i \<le> m \<longrightarrow> j \<le> n \<longrightarrow> (i = 0 \<or> j = 0 \<or> i < k \<or> (i = k \<and> j \<le> l))
         \<longrightarrow> t ! i ! j = dp_entry a b i j))"

subsection \<open>Matching the catalog\<close>

record atm =
  atm_id :: string
  name :: string
  lat :: real
  lon :: real

record scored_atm = atm +
  score :: real

text \<open>The callback of \<^verbatim>\<open>atms.map\<close> in \<^verbatim>\<open>findATMsByName\<close>: the ATM with its score.\<close>

definition match_of :: "string \<Rightarrow> atm \<Rightarrow> scored_atm" where
  "match_of searchName a =
     \<lparr>atm_id = atm_id a, name = name a, lat = lat a, lon = lon a,
      score = getSimilarityScore searchName (extractNameAfterDash (name a))\<rparr>"

text \<open>\<^verbatim>\<open>Array.prototype.sort\<close> is stable; with the comparator
  \<^verbatim>\<open>(a, b) => b.score - a.score\<close> it sorts by falling score, that is by rising
  negated score. The catalog \<^verbatim>\<open>atms\<close>, a global of the source, is a parameter.\<close>

definition findATMsByName :: "atm list \<Rightarrow> string \<Rightarrow> scored_atm list" where
  "findATMsByName atms searchName =
     (let matches = map (match_of searchName) atms;
          filtered = filter (\<lambda>m. score m > 0.3) matches;
          sorted = sort_key (\<lambda>m. - score m) filtered
      in sorted)"

section \<open>Ranking by distance\<close>

subsection \<open>Numbers and values of JavaScript\<close>

text \<open>A number of the ranking code is a real or \<^verbatim>\<open>NaN\<close>. Rounding changes the value
  of a number, which no claim depends on, with one exception that is modelled (see
  \<open>calculateDistance\<close>); the infinities are left out (JSON numbers are taken finite).\<close>

datatype number = Num real | NaN

text \<open>\<^verbatim>\<open>x - y\<close>, \<^verbatim>\<open>r * x\<close>, \<^verbatim>\<open>x / r\<close>, \<^verbatim>\<open>Math.sqrt\<close> and \<^verbatim>\<open>Math.atan2\<close>.\<close>

fun minus_number :: "number \<Rightarrow> number \<Rightarrow> number" where
  "minus_number (Num x) (Num y) = Num (x - y)"
| "minus_number (Num x) NaN = NaN"
| "minus_number NaN y = NaN"

fun times_number :: "real \<Rightarrow> number \<Rightarrow> number" where
  "times_number r (Num x) = Num (r * x)"
| "times_number r NaN = NaN"

fun divided_by :: "number \<Rightarrow> real \<Rightarrow> number" where
  "divided_by (Num x) r = Num (x / r)"
| "divided_by NaN r = NaN"

definition Math_sqrt :: "real \<Rightarrow> number" where
  "Math_sqrt x = (if x < 0 then NaN else Num (sqrt x))"

definition atan2 :: "real \<Rightarrow> real \<Rightarrow> real" where
  "atan2 y x =
     (if 0 < x then arctan (y / x)
      else if x < 0 then (if 0 \<le> y then arctan (y / x) + pi else arctan (y / x) - pi)
      else if 0 < y then pi / 2
      else if y < 0 then - (pi / 2)
      else 0)"

fun Math_atan2 :: "number \<Rightarrow> number \<Rightarrow> number" where
  "Math_atan2 (Num y) (Num x) = Num (atan2 y x)"
| "Math_atan2 (Num y) NaN = NaN"
| "Math_atan2 NaN x = NaN"

text \<open>The comparisons \<^verbatim>\<open>x <= y\<close> and \<^verbatim>\<open>0 < x\<close>: false as soon as \<^verbatim>\<open>NaN\<close> takes part.\<close>

fun number_le :: "number \<Rightarrow> number \<Rightarrow> bool" where
  "number_le (Num x) (Num y) = (x \<le> y)"
| "number_le (Num x) NaN = False"
| "number_le NaN y = False"

fun positive :: "number \<Rightarrow> bool" where
  "positive (Num x) = (0 < x)"
| "positive NaN = False"

text \<open>A list of numbers is in non-decreasing order when each one is \<^verbatim>\<open><=\<close> the next.\<close>

fun nondecreasing :: "number list \<Rightarrow> bool" where
  "nondecreasing [] = True"
| "nondecreasing [x] = True"
| "nondecreasing (x # y # zs) = (number_le x y \<and> nondecreasing (y # zs))"

text \<open>A value read from the parsed answer of the routing service: a number, or
  something else (\<^verbatim>\<open>null\<close>, a string, a boolean, an array, an object). Of a value that
  is not a number the model keeps whether it is truthy and the number that arithmetic
  converts it to: \<^verbatim>\<open>null\<close> is \<open>NonNumber False (Num 0)\<close>, the string \<^verbatim>\<open>"abc"\<close> is
  \<open>NonNumber True NaN\<close>. Only a number has the method \<^verbatim>\<open>toFixed\<close>.\<close>

datatype jsvalue = Number number | NonNumber bool number

fun to_number :: "jsvalue \<Rightarrow> number" where
  "to_number (Number n) = n"
| "to_number (NonNumber t n) = n"

fun truthy :: "jsvalue \<Rightarrow> bool" where
  "truthy (Number (Num x)) = (x \<noteq> 0)"
| "truthy (Number NaN) = False"
| "truthy (NonNumber t n) = t"

fun has_toFixed :: "jsvalue \<Rightarrow> bool" where
  "has_toFixed (Number n) = True"
| "has_toFixed (NonNumber t n) = False"

text \<open>\<^verbatim>\<open>Array.prototype.sort\<close> with a comparator: a stable sort in which a positive
  result puts the first argument after the second and a \<^verbatim>\<open>NaN\<close> result counts as 0.
  When the comparator orders the elements consistently, every conforming sort returns
  this list. When it does not (a \<^verbatim>\<open>NaN\<close> key among numbers), the order is left to the
  engine, and this list is the order of an insertion sort.\<close>

fun insert_by :: "('a \<Rightarrow> 'a \<Rightarrow> number) \<Rightarrow> 'a \<Rightarrow> 'a list \<Rightarrow> 'a list" where
  "insert_by cmp x [] = [x]"
| "insert_by cmp x (y # ys) =
     (if positive (cmp x y) then y # insert_by cmp x ys else x # y # ys)"

definition js_sort :: "('a \<Rightarrow> 'a \<Rightarrow> number) \<Rightarrow> 'a list \<Rightarrow> 'a list" where
  "js_sort cmp xs = foldr (insert_by cmp) xs []"

text \<open>The real behind a number that is not \<^verbatim>\<open>NaN\<close>, for the proofs about lists
  without \<^verbatim>\<open>NaN\<close>.\<close>

fun real_of :: "number \<Rightarrow> real" where
  "real_of (Num x) = x"
| "real_of NaN = 0"

subsection \<open>Haversine distance\<close>

text \<open>The haversine term \<^verbatim>\<open>a\<close> is 1 at an antipode, and there the doubles of the source
  can leave it just above 1, so that \<^verbatim>\<open>Math.sqrt(1 - a)\<close> is \<^verbatim>\<open>NaN\<close>. The rounding
  error of \<^verbatim>\<open>a\<close> is therefore a parameter of the model, a function of the four
  arguments: the computed \<^verbatim>\<open>a\<close> is the exact one plus \<open>err lat1 lon1 lat2 lon2\<close>.
  Exact arithmetic is \<open>err = (\<lambda>_ _ _ _. 0)\<close>.\<close>

type_synonym rounding = "real \<Rightarrow> real \<Rightarrow> real \<Rightarrow> real \<Rightarrow> real"

definition exact :: rounding where
  "exact lat1 lon1 lat2 lon2 = 0"

definition calculateDistance :: "rounding \<Rightarrow> real \<Rightarrow> real \<Rightarrow> real \<Rightarrow> real \<Rightarrow> number" where
  "calculateDistance err lat1 lon1 lat2 lon2 =
     (let R = 6371;
          dLat = (lat2 - lat1) * pi / 180;
          dLon = (lon2 - lon1) * pi / 180;
          a = sin (dLat / 2) * sin (dLat / 2) +
              cos (lat1 * pi / 180) * cos (lat2 * pi / 180) *
              sin (dLon / 2) * sin (dLon / 2) + err lat1 lon1 lat2 lon2;
          c = times_number 2 (Math_atan2 (Math_sqrt a) (Math_sqrt (1 - a)))
      in times_number R c)"

text \<open>The great-circle distance in the specification's words: the haversine formula on a
  sphere of radius 6371 km.\<close>

definition haversine_term :: "real \<Rightarrow> real \<Rightarrow> real \<Rightarrow> real \<Rightarrow> real" where
  "haversine_term lat1 lon1 lat2 lon2 =
     (sin ((lat2 - lat1) * pi / 180 / 2))\<^sup>2 +
     cos (lat1 * pi / 180) * cos (lat2 * pi / 180) * (sin ((lon2 - lon1) * pi / 180 / 2))\<^sup>2"

definition great_circle_distance :: "real \<Rightarrow> real \<Rightarrow> real \<Rightarrow> real \<Rightarrow> real" where
  "great_circle_distance lat1 lon1 lat2 lon2 =
     2 * 6371 * arcsin (sqrt (haversine_term lat1 lon1 lat2 lon2))"

subsection \<open>Result objects and the routing service\<close>

text \<open>The objects the ranking functions build by spreading an ATM and adding fields:
  \<^verbatim>\<open>{...atm, distance}\<close>, then \<^verbatim>\<open>duration\<close> (a value of the answer, or \<^verbatim>\<open>null\<close>, here
  \<open>None\<close>), then \<^verbatim>\<open>apiDistance\<close> and \<^verbatim>\<open>haversineDistance\<close>.\<close>

record located_atm = atm +
  distance :: number

record timed_atm = located_atm +
  duration :: "jsvalue option"

record routed_atm = timed_atm +
  apiDistance :: jsvalue
  haversineDistance :: number

text \<open>An entry of \<^verbatim>\<open>origin_to_destination\<close> (\<^verbatim>\<open>src/bot.js\<close>) and an entry of
  \<^verbatim>\<open>routes\<close> (\<^verbatim>\<open>src/unnamed/part_000\<close>); \<open>None\<close> is a field that is
  \<^verbatim>\<open>undefined\<close>. An entry that is \<^verbatim>\<open>null\<close> or not an object reads like an entry without
  fields. In the parsed body, \<open>None\<close> is a body without the array, or with a field that
  is not an array.\<close>

record route_data =
  rd_distance :: "jsvalue option"
  rd_time :: "jsvalue option"

record route =
  r_distance :: "jsvalue option"
  r_duration :: "jsvalue option"

record gebeta_body =
  origin_to_destination :: "route_data list option"

record gebeta_body_part0 =
  routes :: "route list option"

text \<open>What \<^verbatim>\<open>https.get\<close> brings back: an \<^verbatim>\<open>error\<close> event, or a status code with the
  body as \<^verbatim>\<open>JSON.parse\<close> reads it (\<open>None\<close> when it throws). The request is the origin
  and the destinations written into the URL.\<close>

datatype 'b http_result = NetworkError | HttpResponse nat "'b option"

datatype 'b promise = Rejected | Resolved 'b

type_synonym gebeta_request = "(real \<times> real) \<times> (real \<times> real) list"

text \<open>\<^verbatim>\<open>gebetaOneToMany\<close> of \<^verbatim>\<open>src/bot.js\<close>; the network is the parameter \<open>http\<close>.\<close>

definition gebetaOneToMany ::
  "(gebeta_request \<Rightarrow> 'b http_result) \<Rightarrow> real \<Rightarrow> real \<Rightarrow> 'a atm_scheme list \<Rightarrow> 'b promise" where
  "gebetaOneToMany http originLat originLon destinations =
     (case http ((originLat, originLon), map (\<lambda>d. (lat d, lon d)) destinations) of
        NetworkError \<Rightarrow> Rejected
      | HttpResponse statusCode parsed \<Rightarrow>
          (if statusCode \<noteq> 200 then Rejected
           else (case parsed of None \<Rightarrow> Rejected | Some body \<Rightarrow> Resolved body)))"

text \<open>\<^verbatim>\<open>gebetaOneToMany\<close> of \<^verbatim>\<open>src/unnamed/part_000\<close>: longitude first.\<close>

definition gebetaOneToMany_part0 ::
  "(gebeta_request \<Rightarrow> 'b http_result) \<Rightarrow> real \<Rightarrow> real \<Rightarrow> 'a atm_scheme list \<Rightarrow> 'b promise" where
  "gebetaOneToMany_part0 http originLon originLat destinations =
     (case http ((originLon, originLat), map (\<lambda>d. (lon d, lat d)) destinations) of
        NetworkError \<Rightarrow> Rejected
      | HttpResponse statusCode parsed \<Rightarrow>
          (if statusCode \<noteq> 200 then Rejected
           else (case parsed of None \<Rightarrow> Rejected | Some body \<Rightarrow> Resolved body)))"

text \<open>Reading \<^verbatim>\<open>xs[i]\<close>: \<^verbatim>\<open>undefined\<close> past the end.\<close>

definition at_index :: "'a list \<Rightarrow> nat \<Rightarrow> 'a option" where
  "at_index xs i = (if i < length xs then Some (xs ! i) else None)"

text \<open>\<^verbatim>\<open>xs.slice(0, limit)\<close> for an integer \<^verbatim>\<open>limit\<close>: a negative end counts from the
  end of the array.\<close>

definition slice0 :: "'a list \<Rightarrow> int \<Rightarrow> 'a list" where
  "slice0 xs limit =
     (if limit < 0 then take (nat (int (length xs) + limit)) xs else take (nat limit) xs)"

text \<open>What a ranking function returns: the haversine list, or the list refined by the
  routing service.\<close>

datatype 'r nearest = Haversine "located_atm list" | Refined "'r list"

definition distances :: "('z timed_atm_scheme) nearest \<Rightarrow> number list" where
  "distances r = (case r of Haversine xs \<Rightarrow> map distance xs | Refined ys \<Rightarrow> map distance ys)"

definition atms_of :: "('z timed_atm_scheme) nearest \<Rightarrow> atm list" where
  "atms_of r =
     (case r of Haversine xs \<Rightarrow> map atm.truncate xs | Refined ys \<Rightarrow> map atm.truncate ys)"

text \<open>The callback \<^verbatim>\<open>atm => ({...atm, distance: calculateDistance(...)})\<close> and the
  comparator \<^verbatim>\<open>(a, b) => a.distance - b.distance\<close>.\<close>

definition withDistance :: "rounding \<Rightarrow> real \<Rightarrow> real \<Rightarrow> atm \<Rightarrow> located_atm" where
  "withDistance err userLat userLon a =
     \<lparr>atm_id = atm_id a, name = name a, lat = lat a, lon = lon a,
      distance = calculateDistance err userLat userLon (lat a) (lon a)\<rparr>"

definition by_distance :: "'z located_atm_scheme \<Rightarrow> 'z located_atm_scheme \<Rightarrow> number" where
  "by_distance a b = minus_number (distance a) (distance b)"

subsection \<open>\<^verbatim>\<open>getNearestATMs\<close> of \<^verbatim>\<open>src/bot.js\<close>\<close>

definition closest10_of :: "rounding \<Rightarrow> real \<Rightarrow> real \<Rightarrow> atm list \<Rightarrow> located_atm list" where
  "closest10_of err userLat userLon atms =
     take 10 (js_sort by_distance (map (withDistance err userLat userLon) atms))"

text \<open>The callback of \<^verbatim>\<open>closest10.map\<close>: entry \<open>idx + 1\<close> of the response belongs to
  candidate \<open>idx\<close>, entry 0 being origin to origin. Whatever stands in the field
  \<^verbatim>\<open>distance\<close> becomes \<^verbatim>\<open>apiDistance\<close>, a number or not.\<close>

definition withApiDistance :: "route_data list \<Rightarrow> located_atm \<Rightarrow> nat \<Rightarrow> routed_atm" where
  "withApiDistance otd a idx =
     (let routeData = at_index otd (idx + 1);
          distance' = (case routeData of
                         None \<Rightarrow> Number (distance a)
                       | Some rd \<Rightarrow> (case rd_distance rd of
                                      None \<Rightarrow> Number (distance a)
                                    | Some d \<Rightarrow> d));
          duration' = (case routeData of None \<Rightarrow> None | Some rd \<Rightarrow> rd_time rd)
      in \<lparr>atm_id = atm_id a, name = name a, lat = lat a, lon = lon a,
          distance = distance a, duration = duration',
          apiDistance = distance', haversineDistance = distance a\<rparr>)"

text \<open>The comparator \<^verbatim>\<open>(a, b) => a.apiDistance - b.apiDistance\<close>.\<close>

definition by_apiDistance :: "routed_atm \<Rightarrow> routed_atm \<Rightarrow> number" where
  "by_apiDistance a b = minus_number (to_number (apiDistance a)) (to_number (apiDistance b))"

definition best5_of :: "route_data list \<Rightarrow> located_atm list \<Rightarrow> routed_atm list" where
  "best5_of otd closest10 =
     (let withApiDistances = map (\<lambda>(idx, a). withApiDistance otd a idx) (enumerate 0 closest10)
      in take 5 (js_sort by_apiDistance withApiDistances))"

text \<open>After the sort, \<^verbatim>\<open>best5.forEach\<close> logs \<^verbatim>\<open>atm.apiDistance.toFixed(2)\<close> for each of
  the five: on an \<^verbatim>\<open>apiDistance\<close> that is not a number this throws inside the
  \<^verbatim>\<open>try\<close>, and the \<^verbatim>\<open>catch\<close> leads to the fallback. Otherwise the five are returned with
  \<^verbatim>\<open>distance: atm.apiDistance\<close>.\<close>

definition getNearestATMs ::
  "rounding \<Rightarrow> (gebeta_request \<Rightarrow> gebeta_body http_result) \<Rightarrow> atm list \<Rightarrow> real \<Rightarrow> real
     \<Rightarrow> routed_atm nearest" where
  "getNearestATMs err http atms userLat userLon =
     (let closest10 = closest10_of err userLat userLon atms
      in case gebetaOneToMany http userLat userLon closest10 of
           Rejected \<Rightarrow> Haversine (take 5 closest10)
         | Resolved response \<Rightarrow>
             (case origin_to_destination response of
                None \<Rightarrow> Haversine (take 5 closest10)
              | Some otd \<Rightarrow>
                  (let best5 = best5_of otd closest10
                   in if list_all (\<lambda>a. has_toFixed (apiDistance a)) best5
                      then Refined (map (\<lambda>a. a\<lparr>distance := to_number (apiDistance a)\<rparr>) best5)
                      else Haversine (take 5 closest10))))"

subsection \<open>\<^verbatim>\<open>getNearestATMs\<close> of \<^verbatim>\<open>src/unnamed/part_000\<close>\<close>

text \<open>The callback of \<^verbatim>\<open>atms.map\<close>: the tests \<^verbatim>\<open>route.distance ?\<close> and
  \<^verbatim>\<open>route.duration ?\<close> are false for \<^verbatim>\<open>undefined\<close> and for a falsy value (0,
  \<^verbatim>\<open>null\<close>, the empty string); the distance is divided by 1000 as a number.\<close>

definition withRoute :: "route list \<Rightarrow> atm \<Rightarrow> nat \<Rightarrow> timed_atm" where
  "withRoute rs a idx =
     (let route = at_index rs idx;
          distance' = (case route of
                         None \<Rightarrow> Num 9999
                       | Some r \<Rightarrow> (case r_distance r of
                                     None \<Rightarrow> Num 9999
                                   | Some d \<Rightarrow> if truthy d then divided_by (to_number d) 1000
                                              else Num 9999));
          duration' = (case route of
                         None \<Rightarrow> None
                       | Some r \<Rightarrow> (case r_duration r of
                                     None \<Rightarrow> None
                                   | Some t \<Rightarrow> if truthy t then Some t else None))
      in \<lparr>atm_id = atm_id a, name = name a, lat = lat a, lon = lon a,
          distance = distance', duration = duration'\<rparr>)"

definition haversine_fallback ::
  "rounding \<Rightarrow> atm list \<Rightarrow> real \<Rightarrow> real \<Rightarrow> int \<Rightarrow> located_atm list" where
  "haversine_fallback err atms userLat userLon limit =
     slice0 (js_sort by_distance (map (withDistance err userLat userLon) atms)) limit"

definition getNearestATMs_part0 ::
  "rounding \<Rightarrow> (gebeta_request \<Rightarrow> gebeta_body_part0 http_result) \<Rightarrow> atm list \<Rightarrow> real \<Rightarrow> real
     \<Rightarrow> int \<Rightarrow> timed_atm nearest" where
  "getNearestATMs_part0 err http atms userLat userLon limit =
     (case gebetaOneToMany_part0 http userLon userLat atms of
        Rejected \<Rightarrow> Haversine (haversine_fallback err atms userLat userLon limit)
      | Resolved response \<Rightarrow>
          (case routes response of
             None \<Rightarrow> Haversine (haversine_fallback err atms userLat userLon limit)
           | Some rs \<Rightarrow>
               Refined (slice0 (js_sort by_distance
                          (map (\<lambda>(idx, a). withRoute rs a idx) (enumerate 0 atms))) limit)))"

section \<open>Example data\<close>

text \<open>A small catalog in the shape of \<^verbatim>\<open>atms.csv\<close>, for evaluating the search.\<close>

definition example_atms :: "atm list" where
  "example_atms =
     [\<lparr>atm_id = ''1'', name = ''Bank-Piasa'', lat = 7.06, lon = 38.47\<rparr>,
      \<lparr>atm_id = ''2'', name = ''Bank-Atote'', lat = 7.05, lon = 38.48\<rparr>,
      \<lparr>atm_id = ''3'', name = ''Bank-Posta'', lat = 7.04, lon = 38.49\<rparr>,
      \<lparr>atm_id = ''4'', name = ''Bank-Piyassa'', lat = 7.03, lon = 38.46\<rparr>]"








text \<open>An ATM at latitude 7.36 (that is \<open>184 / 25\<close>) and longitude 38, a second one
  nearby, and a reference point at the antipode of the first: latitude -7.36, longitude
  -142. There the doubles give \<^verbatim>\<open>a = 1.0000000000000002\<close>, that is \<open>1 + 2 / 2 ^ 53\<close>,
  for the first ATM.\<close>

definition example_antipode_atms :: "atm list" where
  "example_antipode_atms =
     [\<lparr>atm_id = ''1'', name = ''Bank-Piasa'', lat = 184 / 25, lon = 38\<rparr>,
      \<lparr>atm_id = ''2'', name = ''Bank-Atote'', lat = 7, lon = 39\<rparr>]"

definition example_rounding :: rounding where
  "example_rounding lat1 lon1 lat2 lon2 =
     (if lat1 = - (184 / 25) \<and> lon1 = - 142 \<and> lat2 = 184 / 25 \<and> lon2 = 38
      then 2 / 2 ^ 53 else 0)"

text \<open>A network that is down.\<close>

definition example_offline :: "gebeta_request \<Rightarrow> 'b http_result" where
  "example_offline req = NetworkError"

section \<open>Properties of the text functions\<close>

lemma of_char_toLowerCaseChar:
  "(of_char (toLowerCaseChar c) :: nat) =
     (let n = of_char c
      in if (65 \<le> n \<and> n \<le> 90) \<or> (192 \<le> n \<and> n \<le> 222 \<and> n \<noteq> 215)
         then n + 32 else n)"
  by (simp add: toLowerCaseChar_def Let_def)

lemma toLowerCaseChar_idem:
  "toLowerCaseChar (toLowerCaseChar c) = toLowerCaseChar c"
proof -
  have "(of_char (toLowerCaseChar (toLowerCaseChar c)) :: nat) = of_char (toLowerCaseChar c)"
    by (auto simp: of_char_toLowerCaseChar Let_def)
  then show ?thesis by simp
qed

lemma lower_fixed_letters:
  "toLowerCaseChar CHR ''i'' = CHR ''i''" "toLowerCaseChar CHR ''a'' = CHR ''a''"
  "toLowerCaseChar CHR ''x'' = CHR ''x''" "toLowerCaseChar CHR ''q'' = CHR ''q''"
  by (simp_all add: toLowerCaseChar_def)
lemma replace_iya_fixed:
  "\<forall>c \<in> set s. toLowerCaseChar c = c \<Longrightarrow> \<forall>c \<in> set (replace_iya s). toLowerCaseChar c = c"
  by (induction s rule: replace_iya.induct) (auto simp: lower_fixed_letters)
lemma replace_iya_no_i:
  "\<forall>c \<in> set s. \<not> isVowel c \<Longrightarrow> replace_iya s = s"
  by (induction s rule: replace_iya.induct) (auto simp: isVowel_def)



lemma settled_x: "settled CHR ''x''"
  by (simp add: settled_def lower_fixed_letters isVowel_def isT_def isK_def isSpace_def)

lemma settled_q: "settled CHR ''q''"
  by (simp add: settled_def lower_fixed_letters isVowel_def isT_def isK_def isSpace_def)

lemma not_isT_q: "\<not> isT CHR ''q''" "\<not> isT CHR ''x''" "\<not> isK CHR ''q''"
  "\<not> isVowel CHR ''x''" "\<not> isVowel CHR ''q''"
  by (simp_all add: isT_def isK_def isVowel_def)

lemma normalizeText_settled: "\<forall>c \<in> set (normalizeText s). settled c"
proof -
  let ?s1 = "replace_iya (toLowerCase s)"
  let ?s2 = "remove_vowels ?s1"
  let ?s3 = "replace_t ?s2"
  let ?s4 = "replace_k ?s3"
  have a: "\<forall>c \<in> set (toLowerCase s). toLowerCaseChar c = c"
    by (simp add: toLowerCase_def toLowerCaseChar_idem)
  have b: "\<forall>c \<in> set ?s1. toLowerCaseChar c = c"
    using a by (rule replace_iya_fixed)
  have c: "\<forall>c \<in> set ?s2. toLowerCaseChar c = c \<and> \<not> isVowel c"
    using b by (simp add: remove_vowels_def)
  have d: "\<forall>c \<in> set ?s3. toLowerCaseChar c = c \<and> \<not> isVowel c \<and> \<not> isT c"
    using c unfolding replace_t_def
    by (auto simp: lower_fixed_letters not_isT_q)
  have e: "\<forall>c \<in> set ?s4. toLowerCaseChar c = c \<and> \<not> isVowel c \<and> \<not> isT c \<and> \<not> isK c"
    using d unfolding replace_k_def
    by (auto simp: lower_fixed_letters not_isT_q)
  show ?thesis
    using e by (simp add: normalizeText_def remove_spaces_def settled_def)
qed


lemma normalizeText_fixed:
  assumes "\<forall>c \<in> set s. settled c"
  shows "normalizeText s = s"
proof -
  have 1: "toLowerCase s = s"
    using assms by (simp add: toLowerCase_def settled_def map_idI)
  have 2: "replace_iya s = s"
    using assms by (simp add: replace_iya_no_i settled_def)
  have 3: "remove_vowels s = s"
    using assms by (simp add: remove_vowels_def settled_def)
  have 4: "replace_t s = s"
    using assms by (simp add: replace_t_def settled_def map_idI)
  have 5: "replace_k s = s"
    using assms by (simp add: replace_k_def settled_def map_idI)
  have 6: "remove_spaces s = s"
    using assms by (simp add: remove_spaces_def settled_def)
  show ?thesis
    by (simp add: normalizeText_def 1 2 3 4 5 6)
qed

text \<open>
  Claim C10. Normalising twice is the same as normalising once: the output of
  \<^verbatim>\<open>normalizeText\<close> holds no capital letter that \<^verbatim>\<open>toLowerCase\<close> would change, no
  vowel, no \<open>t\<close>, no \<open>k\<close> and no whitespace, so every stage leaves it as it is.
\<close>

theorem normalizeText_idempotent:
  "normalizeText (normalizeText x) = normalizeText x
   \<and> (\<forall>c \<in> set (normalizeText x).
        toLowerCaseChar c = c \<and> \<not> isVowel c \<and> \<not> isT c \<and> \<not> isK c \<and> \<not> isSpace c)"
  using normalizeText_settled[of x] normalizeText_fixed[of "normalizeText x"]
  by (simp add: settled_def)

theorem normalizeText_idempotent_witness:
  "normalizeText (normalizeText ''Kidist Mariyam'') = ''qdsxmrm''
   \<and> normalizeText ''Kidist Mariyam'' = ''qdsxmrm''"
proof -
  have e: "normalizeText ''Kidist Mariyam'' = ''qdsxmrm''"
    by code_simp
  from normalizeText_idempotent[of "''Kidist Mariyam''"] show ?thesis
    by (simp add: e)
qed

text \<open>
  Claim C9. The k/q and t/x variants get the same key: ``Kebele'' and ``Qebele'', and
  ``Atote'' and ``Axoxe''. ``Piassa'' and ``Piasa'' need not get the same key, and here
  they do not (\<open>pss\<close> against \<open>ps\<close>).
\<close>

theorem normalizeText_phonetic_variants:
  "normalizeText ''Kebele'' = normalizeText ''Qebele''
   \<and> normalizeText ''Atote'' = normalizeText ''Axoxe''
   \<and> normalizeText ''Piassa'' \<noteq> normalizeText ''Piasa''"
  by code_simp

lemma split_dash_not_Nil: "split_dash s \<noteq> []"
  by (induction s) (simp_all split: list.splits)

lemma split_dash_no_dash:
  "CHR ''-'' \<notin> set s \<Longrightarrow> split_dash s = [s]"
  by (induction s) auto

lemma split_dash_append:
  "CHR ''-'' \<notin> set p \<Longrightarrow> split_dash (p @ CHR ''-'' # r) = p # split_dash r"
  by (induction p) auto

lemma split_dash_second:
  "length (split_dash r) > 0 \<and> split_dash r ! 0 = takeWhile (\<lambda>c. c \<noteq> CHR ''-'') r"
  by (induction r) (auto simp: split_dash_not_Nil split: list.splits)

lemma extractNameAfterDash_dash:
  assumes "CHR ''-'' \<in> set s"
  shows "extractNameAfterDash s = trim (after_first_dash s)"
proof -
  from assms obtain p r where s: "s = p @ CHR ''-'' # r" and p: "CHR ''-'' \<notin> set p"
    by (auto dest: split_list_first)
  have sp: "split_dash s = p # split_dash r"
    using p by (simp add: s split_dash_append)
  have dw: "dropWhile (\<lambda>c. c \<noteq> CHR ''-'') s = CHR ''-'' # r"
    using p by (auto simp: s dropWhile_append3)
  show ?thesis
    using split_dash_second[of r]
    by (simp add: extractNameAfterDash_def sp dw after_first_dash_def)
qed

lemma extractNameAfterDash_no_dash:
  "CHR ''-'' \<notin> set s \<Longrightarrow> extractNameAfterDash s = trim s"
  by (simp add: extractNameAfterDash_def split_dash_no_dash)

lemma after_last_dash_no_dash:
  assumes "CHR ''-'' \<notin> set s"
  shows "after_last_dash s = s"
proof -
  have "takeWhile (\<lambda>c. c \<noteq> CHR ''-'') (rev s) = rev s"
    using assms by (intro takeWhile_eq_all_conv[THEN iffD2]) auto
  then show ?thesis
    by (simp only: after_last_dash_def rev_rev_ident)
qed

lemma one_dash_agree:
  assumes "CHR ''-'' \<in> set s" "count_list s CHR ''-'' \<le> 1"
  shows "after_first_dash s = after_last_dash s"
proof -
  from assms(1) obtain p r where s: "s = p @ CHR ''-'' # r" and p: "CHR ''-'' \<notin> set p"
    by (auto dest: split_list_first)
  have "count_list r CHR ''-'' = 0"
    using assms(2) by (simp add: s)
  then have r: "CHR ''-'' \<notin> set r"
    by (simp add: count_list_0_iff)
  have dw: "dropWhile (\<lambda>c. c \<noteq> CHR ''-'') s = CHR ''-'' # r"
    using p by (auto simp: s dropWhile_append3)
  have 1: "after_first_dash s = r"
    using r by (auto simp: after_first_dash_def dw)
  have "takeWhile (\<lambda>c. c \<noteq> CHR ''-'') (rev r @ CHR ''-'' # rev p) = rev r"
    using r by (auto simp: takeWhile_tail)
  then have 2: "after_last_dash s = r"
    by (simp add: after_last_dash_def s)
  show ?thesis by (simp add: 1 2)
qed

text \<open>
  Claim C5, as amended. The comparable name is the trimmed token after the first dash,
  up to the next dash if there is one, or the whole trimmed name when the name has no
  dash. For a name with at most one dash this is the token after the last dash.
\<close>

theorem extractNameAfterDash_first_token:
  "extractNameAfterDash s =
     (if CHR ''-'' \<in> set s then trim (after_first_dash s) else trim s)
   \<and> (count_list s CHR ''-'' \<le> 1 \<longrightarrow> extractNameAfterDash s = spec_comparable_name s)"
  using extractNameAfterDash_dash[of s] extractNameAfterDash_no_dash[of s]
    after_last_dash_no_dash[of s] one_dash_agree[of s]
  by (auto simp: spec_comparable_name_def)

theorem extractNameAfterDash_first_token_witness:
  "count_list ''CBE - Piasa '' CHR ''-'' \<le> 1
   \<and> extractNameAfterDash ''CBE - Piasa '' = ''Piasa''
   \<and> spec_comparable_name ''CBE - Piasa '' = ''Piasa''"
proof -
  have c: "count_list ''CBE - Piasa '' CHR ''-'' \<le> 1"
    by code_simp
  have e: "spec_comparable_name ''CBE - Piasa '' = ''Piasa''"
    by code_simp
  have "count_list ''CBE - Piasa '' CHR ''-'' \<le> 1
        \<longrightarrow> extractNameAfterDash ''CBE - Piasa '' = spec_comparable_name ''CBE - Piasa ''"
    using extractNameAfterDash_first_token[of "''CBE - Piasa ''"] by (rule conjunct2)
  with c e show ?thesis
    by simp
qed

text \<open>
  Claim C5 as stated (the token after the last dash) fails on a name with two dashes:
  the source reads \<^verbatim>\<open>parts[1]\<close>, the piece between the first and the second dash.
\<close>

theorem extractNameAfterDash_last_token_counterexample:
  "extractNameAfterDash ''Dashen-Arab Sefer-Gate'' = ''Arab Sefer''
   \<and> spec_comparable_name ''Dashen-Arab Sefer-Gate'' = ''Gate''
   \<and> extractNameAfterDash ''Dashen-Arab Sefer-Gate'' \<noteq> spec_comparable_name ''Dashen-Arab Sefer-Gate''"
  by code_simp

section \<open>Properties of the similarity score and of the name search\<close>

subsection \<open>The table of the loops holds the recurrence\<close>

lemma shape_set_cell: "shape m n t \<Longrightarrow> shape m n (set_cell t i j v)"
proof (cases "i < length t")
  case True
  assume "shape m n t"
  then show ?thesis using True
    by (simp add: shape_def set_cell_def nth_list_update)
next
  case False
  assume "shape m n t"
  then show ?thesis using False
    by (simp add: set_cell_def list_update_beyond)
qed

lemma nth_set_cell:
  "shape m n t \<Longrightarrow> i \<le> m \<Longrightarrow> j \<le> n \<Longrightarrow> k \<le> m \<Longrightarrow> l \<le> n \<Longrightarrow>
   set_cell t i j v ! k ! l = (if k = i \<and> l = j then v else t ! k ! l)"
  by (simp add: shape_def set_cell_def nth_list_update)

lemma dp_entry_zero_right: "dp_entry a b i 0 = i"
  by (cases i) simp_all

lemma shape_replicate: "shape m n (replicate (m + 1) (replicate (n + 1) 0))"
proof -
  have "replicate (m + 1) (replicate (n + 1) (0::nat)) ! i = replicate (n + 1) 0" if "i \<le> m" for i
    using that by (intro nth_replicate) simp
  then show ?thesis
    unfolding shape_def by (simp del: replicate_Suc replicate.simps)
qed

lemma first_column:
  "k \<le> m + 1 \<Longrightarrow> shape m n t \<Longrightarrow>
   shape m n (fold (\<lambda>i t. set_cell t i 0 i) [0..<k] t)
   \<and> (\<forall>i j. i \<le> m \<longrightarrow> j \<le> n \<longrightarrow>
         fold (\<lambda>i t. set_cell t i 0 i) [0..<k] t ! i ! j = (if j = 0 \<and> i < k then i else t ! i ! j))"
proof (induction k)
  case 0
  then show ?case by simp
next
  case (Suc k)
  let ?t = "fold (\<lambda>i t. set_cell t i 0 i) [0..<k] t"
  have ih: "shape m n ?t"
    "\<And>i j. i \<le> m \<Longrightarrow> j \<le> n \<Longrightarrow> ?t ! i ! j = (if j = 0 \<and> i < k then i else t ! i ! j)"
    using Suc by simp_all
  have f: "fold (\<lambda>i t. set_cell t i 0 i) [0..<Suc k] t = set_cell ?t k 0 k"
    by simp
  have km: "k \<le> m" using Suc.prems(1) by simp
  show ?case
    unfolding f
  proof (intro conjI allI impI)
    show "shape m n (set_cell ?t k 0 k)"
      using ih(1) by (rule shape_set_cell)
  next
    fix i j assume ij: "i \<le> m" "j \<le> n"
    have "set_cell ?t k 0 k ! i ! j = (if i = k \<and> j = 0 then k else ?t ! i ! j)"
      using ih(1) km ij by (simp add: nth_set_cell)
    then show "set_cell ?t k 0 k ! i ! j = (if j = 0 \<and> i < Suc k then i else t ! i ! j)"
      using ih(2)[OF ij] by (auto simp: less_Suc_eq split: if_splits)
  qed
qed

lemma first_row:
  "k \<le> n + 1 \<Longrightarrow> shape m n t \<Longrightarrow>
   shape m n (fold (\<lambda>j t. set_cell t 0 j j) [0..<k] t)
   \<and> (\<forall>i j. i \<le> m \<longrightarrow> j \<le> n \<longrightarrow>
         fold (\<lambda>j t. set_cell t 0 j j) [0..<k] t ! i ! j = (if i = 0 \<and> j < k then j else t ! i ! j))"
proof (induction k)
  case 0
  then show ?case by simp
next
  case (Suc k)
  let ?t = "fold (\<lambda>j t. set_cell t 0 j j) [0..<k] t"
  have ih: "shape m n ?t"
    "\<And>i j. i \<le> m \<Longrightarrow> j \<le> n \<Longrightarrow> ?t ! i ! j = (if i = 0 \<and> j < k then j else t ! i ! j)"
    using Suc by simp_all
  have f: "fold (\<lambda>j t. set_cell t 0 j j) [0..<Suc k] t = set_cell ?t 0 k k"
    by simp
  have kn: "k \<le> n" using Suc.prems(1) by simp
  show ?case
    unfolding f
  proof (intro conjI allI impI)
    show "shape m n (set_cell ?t 0 k k)"
      using ih(1) by (rule shape_set_cell)
  next
    fix i j assume ij: "i \<le> m" "j \<le> n"
    have "set_cell ?t 0 k k ! i ! j = (if i = 0 \<and> j = k then k else ?t ! i ! j)"
      using ih(1) kn ij by (simp add: nth_set_cell)
    then show "set_cell ?t 0 k k ! i ! j = (if i = 0 \<and> j < Suc k then j else t ! i ! j)"
      using ih(2)[OF ij] by (auto simp: less_Suc_eq split: if_splits)
  qed
qed

lemma filled_init:
  "filled a b m n 0 0
     (fold (\<lambda>j t. set_cell t 0 j j) [0..<n + 1]
        (fold (\<lambda>i t. set_cell t i 0 i) [0..<m + 1] (replicate (m + 1) (replicate (n + 1) 0))))"
proof -
  let ?t0 = "replicate (m + 1) (replicate (n + 1) (0::nat))"
  let ?t1 = "fold (\<lambda>i t. set_cell t i 0 i) [0..<m + 1] ?t0"
  let ?t2 = "fold (\<lambda>j t. set_cell t 0 j j) [0..<n + 1] ?t1"
  have c: "shape m n ?t1 \<and> (\<forall>i j. i \<le> m \<longrightarrow> j \<le> n \<longrightarrow>
              ?t1 ! i ! j = (if j = 0 \<and> i < m + 1 then i else ?t0 ! i ! j))"
    by (rule first_column) (simp, rule shape_replicate)
  have r: "shape m n ?t2 \<and> (\<forall>i j. i \<le> m \<longrightarrow> j \<le> n \<longrightarrow>
              ?t2 ! i ! j = (if i = 0 \<and> j < n + 1 then j else ?t1 ! i ! j))"
    by (rule first_row) (simp, rule conjunct1[OF c])
  show ?thesis
    unfolding filled_def
  proof (intro conjI allI impI)
    show "shape m n ?t2" using r by blast
  next
    fix i j assume ij: "i \<le> m" "j \<le> n" "i = 0 \<or> j = 0 \<or> i < 0 \<or> i = 0 \<and> j \<le> 0"
    have 2: "?t2 ! i ! j = (if i = 0 \<and> j < n + 1 then j else ?t1 ! i ! j)"
      using r ij(1,2) by blast
    have 1: "?t1 ! i ! j = (if j = 0 \<and> i < m + 1 then i else ?t0 ! i ! j)"
      using c ij(1,2) by blast
    show "?t2 ! i ! j = dp_entry a b i j"
    proof (cases "i = 0")
      case True
      then show ?thesis using 2 ij(2) by simp
    next
      case False
      then have "j = 0" using ij(3) by simp
      then show ?thesis using False 1 2 ij(1) by (simp add: dp_entry_zero_right)
    qed
  qed
qed

lemma filled_fill_cell:
  assumes "filled a b m n k l t" "1 \<le> k" "k \<le> m" "l < n"
  shows "filled a b m n k (l + 1) (fill_cell a b k (l + 1) t)"
proof -
  obtain k' where k: "k = Suc k'"
    using assms(2) by (cases k) auto
  have sh: "shape m n t"
    using assms(1) by (simp add: filled_def)
  have known: "t ! i ! j = dp_entry a b i j"
    if "i \<le> m" "j \<le> n" "i = 0 \<or> j = 0 \<or> i < k \<or> (i = k \<and> j \<le> l)" for i j
    using assms(1) that unfolding filled_def by blast
  have e1: "t ! k' ! l = dp_entry a b k' l"
    using assms(3,4) by (intro known) (simp_all add: k)
  have e2: "t ! k' ! Suc l = dp_entry a b k' (Suc l)"
    using assms(3,4) by (intro known) (simp_all add: k)
  have e3: "t ! Suc k' ! l = dp_entry a b (Suc k') l"
    using assms(3,4) by (intro known) (simp_all add: k)
  let ?v = "dp_entry a b k (l + 1)"
  have fc: "fill_cell a b k (l + 1) t = set_cell t k (l + 1) ?v"
    by (simp add: fill_cell_def k e1 e2 e3)
  show ?thesis
    unfolding fc filled_def
  proof (intro conjI allI impI)
    show "shape m n (set_cell t k (l + 1) ?v)"
      using sh by (rule shape_set_cell)
  next
    fix i j
    assume ij: "i \<le> m" "j \<le> n" "i = 0 \<or> j = 0 \<or> i < k \<or> i = k \<and> j \<le> l + 1"
    have s: "set_cell t k (l + 1) ?v ! i ! j = (if i = k \<and> j = l + 1 then ?v else t ! i ! j)"
      using sh assms(3,4) ij(1,2) by (simp add: nth_set_cell)
    show "set_cell t k (l + 1) ?v ! i ! j = dp_entry a b i j"
    proof (cases "i = k \<and> j = l + 1")
      case True
      then show ?thesis using s by simp
    next
      case False
      then have "i = 0 \<or> j = 0 \<or> i < k \<or> (i = k \<and> j \<le> l)"
        using ij(3) by auto
      then have "t ! i ! j = dp_entry a b i j"
        using ij(1,2) by (intro known)
      then show ?thesis using s False by simp
    qed
  qed
qed

lemma filled_row:
  assumes "filled a b m n k 0 t" "1 \<le> k" "k \<le> m"
  shows "l \<le> n \<Longrightarrow> filled a b m n k l (fold (\<lambda>j t. fill_cell a b k j t) [1..<l + 1] t)"
proof (induction l)
  case 0
  then show ?case using assms(1) by simp
next
  case (Suc l)
  let ?t = "fold (\<lambda>j t. fill_cell a b k j t) [1..<l + 1] t"
  have "filled a b m n k l ?t"
    using Suc by simp
  then have "filled a b m n k (l + 1) (fill_cell a b k (l + 1) ?t)"
    using assms(2,3) Suc.prems by (intro filled_fill_cell) simp_all
  moreover have "fold (\<lambda>j t. fill_cell a b k j t) [1..<Suc l + 1] t = fill_cell a b k (l + 1) ?t"
    by simp
  ultimately show ?case
    by simp
qed

lemma filled_next_row:
  assumes "filled a b m n k n t"
  shows "filled a b m n (k + 1) 0 t"
  unfolding filled_def
proof (intro conjI allI impI)
  show "shape m n t" using assms by (simp add: filled_def)
next
  fix i j
  assume ij: "i \<le> m" "j \<le> n" "i = 0 \<or> j = 0 \<or> i < k + 1 \<or> i = k + 1 \<and> j \<le> 0"
  then have "i = 0 \<or> j = 0 \<or> i < k \<or> (i = k \<and> j \<le> n)"
    by auto
  then show "t ! i ! j = dp_entry a b i j"
    using assms ij(1,2) unfolding filled_def by blast
qed

lemma filled_first_row:
  assumes "filled a b m n 0 0 t"
  shows "filled a b m n 1 0 t"
  unfolding filled_def
proof (intro conjI allI impI)
  show "shape m n t" using assms by (simp add: filled_def)
next
  fix i j
  assume ij: "i \<le> m" "j \<le> n" "i = 0 \<or> j = 0 \<or> i < 1 \<or> i = 1 \<and> j \<le> 0"
  then have "i = 0 \<or> j = 0 \<or> i < 0 \<or> (i = 0 \<and> j \<le> 0)"
    by auto
  then show "t ! i ! j = dp_entry a b i j"
    using assms ij(1,2) unfolding filled_def by blast
qed

lemma filled_rows:
  assumes "filled a b m n 1 0 t"
  shows "k \<le> m \<Longrightarrow>
         filled a b m n (k + 1) 0
           (fold (\<lambda>i t. fold (\<lambda>j t. fill_cell a b i j t) [1..<n + 1] t) [1..<k + 1] t)"
proof (induction k)
  case 0
  then show ?case using assms by simp
next
  case (Suc k)
  let ?t = "fold (\<lambda>i t. fold (\<lambda>j t. fill_cell a b i j t) [1..<n + 1] t) [1..<k + 1] t"
  let ?u = "fold (\<lambda>j t. fill_cell a b (k + 1) j t) [1..<n + 1] ?t"
  have "filled a b m n (k + 1) 0 ?t"
    using Suc by simp
  then have "filled a b m n (k + 1) n ?u"
    using Suc.prems by (intro filled_row) simp_all
  then have "filled a b m n (k + 1 + 1) 0 ?u"
    by (rule filled_next_row)
  moreover have "fold (\<lambda>i t. fold (\<lambda>j t. fill_cell a b i j t) [1..<n + 1] t) [1..<Suc k + 1] t = ?u"
    by simp
  ultimately show ?case
    by simp
qed

lemma dp_filled: "filled a b (length a) (length b) (length a + 1) 0 (dp a b)"
proof -
  let ?m = "length a" and ?n = "length b"
  let ?t2 = "fold (\<lambda>j t. set_cell t 0 j j) [0..<?n + 1]
        (fold (\<lambda>i t. set_cell t i 0 i) [0..<?m + 1] (replicate (?m + 1) (replicate (?n + 1) 0)))"
  have "filled a b ?m ?n 1 0 ?t2"
    by (rule filled_first_row) (rule filled_init)
  then have "filled a b ?m ?n (?m + 1) 0
      (fold (\<lambda>i t. fold (\<lambda>j t. fill_cell a b i j t) [1..<?n + 1] t) [1..<?m + 1] ?t2)"
    by (rule filled_rows) simp
  then show ?thesis
    by (simp only: dp_def Let_def)
qed

lemma dp_nth: "i \<le> length a \<Longrightarrow> j \<le> length b \<Longrightarrow> dp a b ! i ! j = dp_entry a b i j"
  using dp_filled[of a b] unfolding filled_def by auto

subsection \<open>Symmetry and bounds of the table\<close>

lemma dp_entry_sym: "dp_entry a b i j = dp_entry b a j i"
  by (induction a b i j rule: dp_entry.induct)
     (auto simp: dp_entry_zero_right min.commute min.left_commute)

lemma dp_entry_le_max: "dp_entry a b i j \<le> max i j"
  by (induction a b i j rule: dp_entry.induct) auto

lemma dp_last: "dp a b ! length a ! length b = dp_entry a b (length a) (length b)"
  by (rule dp_nth) simp_all

lemma dp_sym: "dp a b ! length a ! length b = dp b a ! length b ! length a"
  by (simp only: dp_last dp_entry_sym[of a b])

lemma dp_le_max: "dp a b ! length a ! length b \<le> max (length a) (length b)"
  by (simp only: dp_last dp_entry_le_max)

subsection \<open>The score\<close>

lemma includes_str_Nil: "includes_str s []"
  by (cases s) simp_all

lemma score_one_empty:
  assumes "normalizeText a = []" "normalizeText b \<noteq> []"
  shows "getSimilarityScore a b = 0.8" "getSimilarityScore b a = 0.8"
  using assms by (simp_all add: getSimilarityScore_def Let_def includes_str_Nil)

text \<open>
  Claim C3 fails on the code. When exactly one normalised key is empty, the keys differ
  and \<^verbatim>\<open>includes\<close> finds the empty key in the other one, so the score is 0.8; the
  tests \<^verbatim>\<open>m === 0\<close> and \<^verbatim>\<open>n === 0\<close> that return 0 come after it and are never
  reached. Here at the inputs \<open>('', 'Piasa')\<close> and \<open>('a', 'Piasa')\<close>.
\<close>

theorem getSimilarityScore_one_empty_key:
  "normalizeText '''' = [] \<and> normalizeText ''a'' = [] \<and> normalizeText ''Piasa'' = ''ps''
   \<and> getSimilarityScore '''' ''Piasa'' = 0.8
   \<and> getSimilarityScore ''a'' ''Piasa'' = 0.8
   \<and> getSimilarityScore ''Piasa'' '''' = 0.8"
proof -
  have 1: "normalizeText '''' = []" by code_simp
  have 2: "normalizeText ''a'' = []" by code_simp
  have 3: "normalizeText ''Piasa'' = ''ps''" by code_simp
  show ?thesis
    using score_one_empty[of "''''" "''Piasa''"] score_one_empty[of "''a''" "''Piasa''"]
    by (simp add: 1 2 3)
qed

text \<open>
  Claim C7. The similarity score is symmetric.
\<close>

theorem getSimilarityScore_symmetric:
  "getSimilarityScore a b = getSimilarityScore b a"
  using dp_sym[of "normalizeText a" "normalizeText b"]
  by (auto simp: getSimilarityScore_def Let_def max.commute)

theorem getSimilarityScore_symmetric_witness:
  "getSimilarityScore ''Mobil'' ''Atote'' = 0 \<and> getSimilarityScore ''Atote'' ''Mobil'' = 0"
proof -
  have "getSimilarityScore ''Mobil'' ''Atote'' = 0" by code_simp
  with getSimilarityScore_symmetric[of "''Mobil''" "''Atote''"] show ?thesis
    by simp
qed

lemma score_levenshtein_bounds:
  assumes "0 < length a \<or> 0 < length b"
  shows "0 \<le> 1 - real (dp a b ! length a ! length b) / real (max (length a) (length b))"
    and "1 - real (dp a b ! length a ! length b) / real (max (length a) (length b)) \<le> 1"
proof -
  let ?d = "dp a b ! length a ! length b" and ?mx = "max (length a) (length b)"
  have "0 < ?mx"
    using assms by (simp add: less_max_iff_disj)
  then have pos: "0 < real ?mx"
    by (simp only: of_nat_0_less_iff)
  have "real ?d \<le> real ?mx"
    using dp_le_max[of a b] by (simp only: of_nat_le_iff)
  then have "real ?d / real ?mx \<le> 1"
    using pos by (simp add: divide_le_eq_1)
  then show "0 \<le> 1 - real ?d / real ?mx"
    by simp
  show "1 - real ?d / real ?mx \<le> 1"
    by simp
qed

text \<open>
  Claim C8. The similarity score lies in [0, 1], and a string scores 1 against itself
  (the empty string too).
\<close>

theorem getSimilarityScore_bounds:
  "0 \<le> getSimilarityScore a b \<and> getSimilarityScore a b \<le> 1 \<and> getSimilarityScore a a = 1"
proof -
  have self: "getSimilarityScore a a = 1"
    by (simp add: getSimilarityScore_def)
  have lo: "0 \<le> getSimilarityScore a b"
    using score_levenshtein_bounds(1)[of "normalizeText a" "normalizeText b"]
    by (simp add: getSimilarityScore_def Let_def)
  have hi: "getSimilarityScore a b \<le> 1"
    using score_levenshtein_bounds(2)[of "normalizeText a" "normalizeText b"]
    by (simp add: getSimilarityScore_def Let_def)
  from self lo hi show ?thesis by simp
qed

theorem getSimilarityScore_bounds_witness:
  "getSimilarityScore ''Referal'' ''Arab Sefer'' = 2 / 5
   \<and> getSimilarityScore ''Referal'' ''Referal'' = 1"
proof -
  have "getSimilarityScore ''Referal'' ''Arab Sefer'' = 2 / 5" by code_simp
  with getSimilarityScore_bounds[of "''Referal''" "''Arab Sefer''"] show ?thesis
    by simp
qed

lemma score_match_of:
  "score (match_of q a) = getSimilarityScore q (extractNameAfterDash (name a))"
  by (simp add: match_of_def)

lemma findATMsByName_unfold:
  "findATMsByName atms q =
     sort_key (\<lambda>m. - score m) (filter (\<lambda>m. 0.3 < score m) (map (match_of q) atms))"
  by (simp add: findATMsByName_def)

lemma findATMsByName_above: "\<forall>m \<in> set (findATMsByName atms q). 0.3 < score m"
  by (simp add: findATMsByName_unfold)

lemma findATMsByName_set:
  "set (findATMsByName atms q) =
     {match_of q a | a. a \<in> set atms \<and> 0.3 < getSimilarityScore q (extractNameAfterDash (name a))}"
  by (auto simp: findATMsByName_unfold score_match_of)

lemma findATMsByName_sorted:
  "sorted_wrt (\<lambda>x y. score y \<le> score x) (findATMsByName atms q)"
proof -
  have "sorted (map (\<lambda>m. - score m) (findATMsByName atms q))"
    unfolding findATMsByName_unfold by (rule sorted_sort_key)
  then show ?thesis
    by (simp add: sorted_map)
qed

lemma findATMsByName_stable:
  "filter (\<lambda>m. score m = k) (findATMsByName atms q) =
     map (match_of q)
       (filter (\<lambda>a. getSimilarityScore q (extractNameAfterDash (name a)) = k \<and> 0.3 < k) atms)"
proof -
  have "filter (\<lambda>m. score m = k) (findATMsByName atms q) =
        filter (\<lambda>m. - score m = - k) (findATMsByName atms q)"
    by simp
  also have "\<dots> = filter (\<lambda>m. - score m = - k)
                     (filter (\<lambda>m. 0.3 < score m) (map (match_of q) atms))"
    unfolding findATMsByName_unfold by (rule sort_key_stable)
  also have "\<dots> = map (match_of q)
       (filter (\<lambda>a. getSimilarityScore q (extractNameAfterDash (name a)) = k \<and> 0.3 < k) atms)"
    by (induction atms) (auto simp: score_match_of)
  finally show ?thesis .
qed

text \<open>
  Claim C4. \<^verbatim>\<open>findATMsByName\<close> returns exactly the catalog entries whose score against
  the query is above 0.3, each with its score, by falling score; entries of equal score
  keep their catalog order.
\<close>

theorem findATMsByName_threshold_sorted_stable:
  "(\<forall>m \<in> set (findATMsByName atms q). 0.3 < score m)
   \<and> set (findATMsByName atms q) =
       {match_of q a | a.
          a \<in> set atms \<and> 0.3 < getSimilarityScore q (extractNameAfterDash (name a))}
   \<and> sorted_wrt (\<lambda>x y. score y \<le> score x) (findATMsByName atms q)
   \<and> (\<forall>k. filter (\<lambda>m. score m = k) (findATMsByName atms q) =
          map (match_of q)
            (filter (\<lambda>a. getSimilarityScore q (extractNameAfterDash (name a)) = k \<and> 0.3 < k)
               atms))"
  using findATMsByName_above[of atms q] findATMsByName_set[of atms q]
    findATMsByName_sorted[of atms q] findATMsByName_stable[of _ atms q]
  by blast

theorem findATMsByName_threshold_sorted_stable_witness:
  "map (\<lambda>m. (atm_id m, score m)) (findATMsByName example_atms ''piasa'') =
     [(''1'', 1), (''3'', 4 / 5), (''4'', 4 / 5)]
   \<and> sorted_wrt (\<lambda>x y. score y \<le> score x) (findATMsByName example_atms ''piasa'')
   \<and> set (findATMsByName example_atms ''piasa'') =
       {match_of ''piasa'' a | a.
          a \<in> set example_atms
          \<and> 0.3 < getSimilarityScore ''piasa'' (extractNameAfterDash (name a))}"
proof -
  have e: "map (\<lambda>m. (atm_id m, score m)) (findATMsByName example_atms ''piasa'') =
     [(''1'', 1), (''3'', 4 / 5), (''4'', 4 / 5)]"
    by code_simp
  from findATMsByName_threshold_sorted_stable[of example_atms "''piasa''"] e
  show ?thesis by blast
qed

section \<open>Properties of the ranking\<close>

subsection \<open>The distance\<close>


lemma antipode_term:
  "sin ((la - (- la)) * pi / 180 / 2) * sin ((la - (- la)) * pi / 180 / 2) +
   cos (- la * pi / 180) * cos (la * pi / 180) *
   sin ((lo - (lo - 180)) * pi / 180 / 2) * sin ((lo - (lo - 180)) * pi / 180 / 2) = 1"
proof -
  have 1: "(la - (- la)) * pi / 180 / 2 = la * pi / 180"
    by simp
  have 2: "(lo - (lo - 180)) * pi / 180 / 2 = pi / 2"
    by simp
  have 3: "cos (- la * pi / 180) = cos (la * pi / 180)"
    by simp
  have "sin (la * pi / 180) * sin (la * pi / 180) + cos (la * pi / 180) * cos (la * pi / 180) = 1"
    using sin_cos_squared_add[of "la * pi / 180"] by (simp add: power2_eq_square)
  then show ?thesis
    by (simp only: 1 2 3 sin_pi_half mult_1_right)
qed

lemma calculateDistance_antipode:
  assumes "0 < err (- la) (lo - 180) la lo"
  shows "calculateDistance err (- la) (lo - 180) la lo = NaN"
proof -
  let ?a = "sin ((la - (- la)) * pi / 180 / 2) * sin ((la - (- la)) * pi / 180 / 2) +
   cos (- la * pi / 180) * cos (la * pi / 180) *
   sin ((lo - (lo - 180)) * pi / 180 / 2) * sin ((lo - (lo - 180)) * pi / 180 / 2)
   + err (- la) (lo - 180) la lo"
  have "?a = 1 + err (- la) (lo - 180) la lo"
    by (simp only: antipode_term)
  then have "1 - ?a < 0"
    using assms by simp
  then have "Math_sqrt (1 - ?a) = NaN"
    by (simp add: Math_sqrt_def)
  then have "Math_atan2 (Math_sqrt ?a) (Math_sqrt (1 - ?a)) = NaN"
    by (cases "Math_sqrt ?a") simp_all
  then show ?thesis
    by (simp add: calculateDistance_def Let_def)
qed

lemma haversine_term_antipode: "haversine_term (- la) (lo - 180) la lo = 1"
  using antipode_term[of la lo] by (simp add: haversine_term_def power2_eq_square)

lemma great_circle_distance_antipode:
  "great_circle_distance (- la) (lo - 180) la lo = 6371 * pi"
  by (simp add: great_circle_distance_def haversine_term_antipode)

text \<open>With exact arithmetic and a haversine term in [0, 1], the source computes the
  great-circle distance: \<^verbatim>\<open>2 * atan2(sqrt a, sqrt (1 - a))\<close> is \<open>2 * arcsin (sqrt a)\<close>.\<close>

lemma atan2_sqrt:
  assumes "0 \<le> a" "a \<le> 1"
  shows "atan2 (sqrt a) (sqrt (1 - a)) = arcsin (sqrt a)"
proof (cases "a = 1")
  case True
  then show ?thesis by (simp add: atan2_def)
next
  case False
  then have lt: "a < 1" using assms by simp
  then have pos: "0 < sqrt (1 - a)" by simp
  have "sqrt a < 1"
    using lt assms(1) by (simp add: real_sqrt_lt_1_iff)
  moreover have "- 1 < sqrt a"
    using assms(1) by (simp add: order.strict_trans2[of "-1" 0])
  ultimately have "arcsin (sqrt a) = arctan (sqrt a / sqrt (1 - (sqrt a)\<^sup>2))"
    by (rule arcsin_arctan[rotated])
  then have "arcsin (sqrt a) = arctan (sqrt a / sqrt (1 - a))"
    using assms(1) by simp
  then show ?thesis
    using pos by (simp add: atan2_def)
qed

lemma calculateDistance_exact:
  assumes "err lat1 lon1 lat2 lon2 = 0"
    and "0 \<le> haversine_term lat1 lon1 lat2 lon2" "haversine_term lat1 lon1 lat2 lon2 \<le> 1"
  shows "calculateDistance err lat1 lon1 lat2 lon2 = Num (great_circle_distance lat1 lon1 lat2 lon2)"
proof -
  let ?a = "haversine_term lat1 lon1 lat2 lon2"
  have a: "sin ((lat2 - lat1) * pi / 180 / 2) * sin ((lat2 - lat1) * pi / 180 / 2) +
           cos (lat1 * pi / 180) * cos (lat2 * pi / 180) *
           sin ((lon2 - lon1) * pi / 180 / 2) * sin ((lon2 - lon1) * pi / 180 / 2)
           + err lat1 lon1 lat2 lon2 = ?a"
    by (simp add: haversine_term_def power2_eq_square assms(1))
  have s1: "Math_sqrt ?a = Num (sqrt ?a)"
    using assms(2) by (simp add: Math_sqrt_def)
  have s2: "Math_sqrt (1 - ?a) = Num (sqrt (1 - ?a))"
    using assms(3) by (simp add: Math_sqrt_def)
  have "calculateDistance err lat1 lon1 lat2 lon2
        = times_number 6371 (times_number 2 (Math_atan2 (Math_sqrt ?a) (Math_sqrt (1 - ?a))))"
    unfolding calculateDistance_def Let_def a ..
  also have "\<dots> = Num (6371 * (2 * atan2 (sqrt ?a) (sqrt (1 - ?a))))"
    by (simp add: s1 s2)
  also have "\<dots> = Num (great_circle_distance lat1 lon1 lat2 lon2)"
    using atan2_sqrt[OF assms(2,3)] by (simp add: great_circle_distance_def)
  finally show ?thesis .
qed

lemma cos_product_le:
  fixes p q :: real
  shows "cos p * cos q \<le> (cos ((q - p) / 2))\<^sup>2"
proof -
  define x where "x = (q - p) / 2"
  have pq: "p - q = - (2 * x)"
    by (simp add: x_def field_simps)
  have dbl: "cos (2 * x) = 2 * (cos x)\<^sup>2 - 1"
    by (rule cos_double_cos)
  have "cos p * cos q = (cos (p - q) + cos (p + q)) / 2"
    by (rule cos_times_cos)
  also have "\<dots> \<le> (cos (p - q) + 1) / 2"
    by simp
  also have "\<dots> = (cos (2 * x) + 1) / 2"
    by (simp only: pq cos_minus)
  also have "\<dots> = (cos x)\<^sup>2"
    by (simp only: dbl) simp
  finally show ?thesis
    by (simp only: x_def)
qed

lemma haversine_term_le_1: "haversine_term lat1 lon1 lat2 lon2 \<le> 1"
proof -
  let ?p = "lat1 * pi / 180" and ?q = "lat2 * pi / 180"
  let ?d = "(lat2 - lat1) * pi / 180 / 2"
  let ?L = "(sin ((lon2 - lon1) * pi / 180 / 2))\<^sup>2"
  have d: "?d = (?q - ?p) / 2"
    by (simp add: field_simps)
  have L: "0 \<le> ?L" "?L \<le> 1"
    using abs_sin_le_one[of "(lon2 - lon1) * pi / 180 / 2"]
    by (simp_all only: zero_le_power2 abs_square_le_1)
  have c: "cos ?p * cos ?q \<le> (cos ?d)\<^sup>2"
    unfolding d by (rule cos_product_le)
  have "cos ?p * cos ?q * ?L \<le> (cos ?d)\<^sup>2"
  proof (cases "0 \<le> cos ?p * cos ?q")
    case True
    then have "cos ?p * cos ?q * ?L \<le> cos ?p * cos ?q * 1"
      using L(2) by (intro mult_left_mono) simp_all
    then show ?thesis using c by simp
  next
    case False
    then have "cos ?p * cos ?q \<le> 0"
      by simp
    then have "cos ?p * cos ?q * ?L \<le> 0"
      using L(1) by (rule mult_nonpos_nonneg)
    then show ?thesis
      by (rule order_trans) simp
  qed
  moreover have "(sin ?d)\<^sup>2 + (cos ?d)\<^sup>2 = 1"
    by (rule sin_cos_squared_add)
  ultimately show ?thesis
    unfolding haversine_term_def by linarith
qed

lemma haversine_term_ge_0:
  assumes "\<bar>lat1\<bar> \<le> 90" "\<bar>lat2\<bar> \<le> 90"
  shows "0 \<le> haversine_term lat1 lon1 lat2 lon2"
proof -
  have r: "- (pi / 2) \<le> l * pi / 180 \<and> l * pi / 180 \<le> pi / 2" if "\<bar>l\<bar> \<le> 90" for l :: real
  proof -
    have "\<bar>l * pi / 180\<bar> \<le> 90 * pi / 180"
      using that by (simp add: abs_mult)
    then show ?thesis by (simp add: abs_le_iff)
  qed
  have "0 \<le> cos (lat1 * pi / 180)" "0 \<le> cos (lat2 * pi / 180)"
    using r[OF assms(1)] r[OF assms(2)] by (simp_all add: cos_ge_zero)
  then have "0 \<le> cos (lat1 * pi / 180) * cos (lat2 * pi / 180) * (sin ((lon2 - lon1) * pi / 180 / 2))\<^sup>2"
    by simp
  then show ?thesis
    by (simp add: haversine_term_def)
qed

lemma calculateDistance_great_circle:
  assumes "\<bar>lat1\<bar> \<le> 90" "\<bar>lat2\<bar> \<le> 90"
  shows "calculateDistance exact lat1 lon1 lat2 lon2
         = Num (great_circle_distance lat1 lon1 lat2 lon2)"
  by (rule calculateDistance_exact)
     (simp_all add: exact_def haversine_term_le_1 haversine_term_ge_0 assms)

subsection \<open>The sort\<close>

lemma length_insert_by: "length (insert_by cmp x ys) = Suc (length ys)"
  by (induction ys) simp_all

lemma length_js_sort: "length (js_sort cmp xs) = length xs"
  by (induction xs) (simp_all add: js_sort_def length_insert_by)

lemma set_insert_by: "set (insert_by cmp x ys) = insert x (set ys)"
  by (induction ys) auto

lemma set_js_sort: "set (js_sort cmp xs) = set xs"
  by (induction xs) (simp_all add: js_sort_def set_insert_by)

text \<open>On keys without \<^verbatim>\<open>NaN\<close> the comparator \<^verbatim>\<open>(a, b) => key(a) - key(b)\<close> is
  consistent and the sort is the stable sort by key.\<close>

lemma number_eq_real_of: "n \<noteq> NaN \<Longrightarrow> n = Num (real_of n)"
  by (cases n) simp_all

lemma insert_by_insort_key:
  assumes "\<forall>z \<in> set (x # ys). k z \<noteq> NaN"
  shows "insert_by (\<lambda>a b. minus_number (k a) (k b)) x ys = insort_key (\<lambda>z. real_of (k z)) x ys"
  using assms
proof (induction ys)
  case Nil
  then show ?case by simp
next
  case (Cons y ys)
  have kx: "k x = Num (real_of (k x))" and ky: "k y = Num (real_of (k y))"
    using Cons.prems by (simp_all add: number_eq_real_of)
  have p: "positive (minus_number (k x) (k y)) = (\<not> real_of (k x) \<le> real_of (k y))"
    by (subst kx, subst ky) auto
  show ?case
    using Cons by (simp add: p)
qed

lemma js_sort_sort_key:
  assumes "\<forall>z \<in> set xs. k z \<noteq> NaN"
  shows "js_sort (\<lambda>a b. minus_number (k a) (k b)) xs = sort_key (\<lambda>z. real_of (k z)) xs"
  using assms
proof (induction xs)
  case Nil
  then show ?case by (simp add: js_sort_def)
next
  case (Cons x xs)
  have "js_sort (\<lambda>a b. minus_number (k a) (k b)) (x # xs)
        = insert_by (\<lambda>a b. minus_number (k a) (k b)) x (js_sort (\<lambda>a b. minus_number (k a) (k b)) xs)"
    by (simp add: js_sort_def)
  also have "\<dots> = insert_by (\<lambda>a b. minus_number (k a) (k b)) x (sort_key (\<lambda>z. real_of (k z)) xs)"
    using Cons by simp
  also have "\<dots> = insort_key (\<lambda>z. real_of (k z)) x (sort_key (\<lambda>z. real_of (k z)) xs)"
    using Cons.prems by (intro insert_by_insort_key) simp
  finally show ?case by simp
qed

lemma nondecreasing_Num: "nondecreasing (map Num rs) = sorted rs"
proof (induction rs rule: induct_list012)
  case 1
  then show ?case by simp
next
  case (2 x)
  then show ?case by simp
next
  case (3 x y zs)
  have "sorted (x # y # zs) = (x \<le> y \<and> sorted (y # zs))"
    by auto
  then show ?case
    using 3 by simp
qed

lemma nondecreasing_keys:
  assumes "\<forall>z \<in> set xs. k z \<noteq> NaN" "sorted (map (\<lambda>z. real_of (k z)) xs)"
  shows "nondecreasing (map k xs)"
proof -
  have "map k xs = map Num (map (\<lambda>z. real_of (k z)) xs)"
    using assms(1) by (simp add: number_eq_real_of)
  then show ?thesis
    using assms(2) by (simp only: nondecreasing_Num)
qed

lemma nondecreasing_take_js_sort:
  assumes "\<forall>z \<in> set xs. k z \<noteq> NaN"
  shows "nondecreasing (map k (take n (js_sort (\<lambda>a b. minus_number (k a) (k b)) xs)))"
proof -
  let ?r = "\<lambda>z. real_of (k z)"
  have s: "js_sort (\<lambda>a b. minus_number (k a) (k b)) xs = sort_key ?r xs"
    using assms by (rule js_sort_sort_key)
  have "sorted (take n (map ?r (sort_key ?r xs)))"
    by (rule sorted_wrt_take) (rule sorted_sort_key)
  then have "sorted (map ?r (take n (sort_key ?r xs)))"
    by (simp add: take_map)
  moreover have "\<forall>z \<in> set (take n (sort_key ?r xs)). k z \<noteq> NaN"
    using assms by (auto dest: in_set_takeD)
  ultimately show ?thesis
    unfolding s by (intro nondecreasing_keys)
qed

subsection \<open>The routing call and the two paths\<close>

lemma take5_closest10:
  "take 5 (closest10_of err la lo atms)
   = take 5 (js_sort by_distance (map (withDistance err la lo) atms))"
  by (simp add: closest10_of_def)

lemma length_closest10: "length (closest10_of err la lo atms) = min 10 (length atms)"
  by (simp add: closest10_of_def length_js_sort min.commute)

lemma length_best5: "length (best5_of otd c) = min 5 (length c)"
  by (simp add: best5_of_def Let_def length_js_sort min.commute)

lemma length_slice0: "0 \<le> limit \<Longrightarrow> length (slice0 xs limit) = min (nat limit) (length xs)"
  by (simp add: slice0_def min.commute)

lemma gebetaOneToMany_Rejected:
  "gebetaOneToMany http la lo ds = Rejected \<longleftrightarrow>
     (let r = http ((la, lo), map (\<lambda>d. (lat d, lon d)) ds)
      in r = NetworkError \<or> (\<exists>st b. r = HttpResponse st b \<and> st \<noteq> 200) \<or> r = HttpResponse 200 None)"
  by (auto simp: gebetaOneToMany_def Let_def split: http_result.splits option.splits)

lemma gebetaOneToMany_Resolved:
  "gebetaOneToMany http la lo ds = Resolved body \<longleftrightarrow>
     http ((la, lo), map (\<lambda>d. (lat d, lon d)) ds) = HttpResponse 200 (Some body)"
  by (auto simp: gebetaOneToMany_def split: http_result.splits option.splits)

lemma gebetaOneToMany_part0_Rejected:
  "gebetaOneToMany_part0 http lo la ds = Rejected \<longleftrightarrow>
     (let r = http ((lo, la), map (\<lambda>d. (lon d, lat d)) ds)
      in r = NetworkError \<or> (\<exists>st b. r = HttpResponse st b \<and> st \<noteq> 200) \<or> r = HttpResponse 200 None)"
  by (auto simp: gebetaOneToMany_part0_def Let_def split: http_result.splits option.splits)

lemma gebetaOneToMany_part0_Resolved:
  "gebetaOneToMany_part0 http lo la ds = Resolved body \<longleftrightarrow>
     http ((lo, la), map (\<lambda>d. (lon d, lat d)) ds) = HttpResponse 200 (Some body)"
  by (auto simp: gebetaOneToMany_part0_def split: http_result.splits option.splits)

lemma getNearestATMs_Rejected:
  "gebetaOneToMany http la lo (closest10_of err la lo atms) = Rejected \<Longrightarrow>
   getNearestATMs err http atms la lo =
     Haversine (take 5 (js_sort by_distance (map (withDistance err la lo) atms)))"
  by (simp add: getNearestATMs_def Let_def take5_closest10)

lemma getNearestATMs_no_array:
  "gebetaOneToMany http la lo (closest10_of err la lo atms) = Resolved body \<Longrightarrow>
   origin_to_destination body = None \<Longrightarrow>
   getNearestATMs err http atms la lo =
     Haversine (take 5 (js_sort by_distance (map (withDistance err la lo) atms)))"
  by (simp add: getNearestATMs_def Let_def take5_closest10)



lemma getNearestATMs_cases:
  "getNearestATMs err http atms la lo = Haversine (take 5 (closest10_of err la lo atms))
   \<or> (\<exists>otd. getNearestATMs err http atms la lo =
         Refined (map (\<lambda>a. a\<lparr>distance := to_number (apiDistance a)\<rparr>)
                    (best5_of otd (closest10_of err la lo atms))))"
  by (auto simp: getNearestATMs_def Let_def split: promise.splits option.splits)

lemma getNearestATMs_part0_Rejected:
  "gebetaOneToMany_part0 http lo la atms = Rejected \<Longrightarrow>
   getNearestATMs_part0 err http atms la lo limit =
     Haversine (slice0 (js_sort by_distance (map (withDistance err la lo) atms)) limit)"
  by (simp add: getNearestATMs_part0_def haversine_fallback_def)

lemma getNearestATMs_part0_Resolved:
  "gebetaOneToMany_part0 http lo la atms = Resolved body \<Longrightarrow>
   getNearestATMs_part0 err http atms la lo limit =
     (case routes body of
        None \<Rightarrow> Haversine (slice0 (js_sort by_distance (map (withDistance err la lo) atms)) limit)
      | Some rs \<Rightarrow>
          Refined (slice0 (js_sort by_distance
                     (map (\<lambda>(idx, a). withRoute rs a idx) (enumerate 0 atms))) limit))"
  by (simp add: getNearestATMs_part0_def haversine_fallback_def split: option.splits)

lemma getNearestATMs_part0_cases:
  "getNearestATMs_part0 err http atms la lo limit =
     Haversine (slice0 (js_sort by_distance (map (withDistance err la lo) atms)) limit)
   \<or> (\<exists>rs. getNearestATMs_part0 err http atms la lo limit =
         Refined (slice0 (js_sort by_distance
                    (map (\<lambda>(idx, a). withRoute rs a idx) (enumerate 0 atms))) limit))"
  by (auto simp: getNearestATMs_part0_def haversine_fallback_def
      split: promise.splits option.splits)

lemma getNearestATMs_failure:
  assumes "r = http ((la, lo), map (\<lambda>d. (lat d, lon d)) (closest10_of err la lo atms))"
    and "r = NetworkError \<or> (\<exists>st b. r = HttpResponse st b \<and> st \<noteq> 200)
         \<or> r = HttpResponse 200 None
         \<or> r = HttpResponse 200 (Some \<lparr>origin_to_destination = None\<rparr>)"
  shows "getNearestATMs err http atms la lo =
           Haversine (take 5 (js_sort by_distance (map (withDistance err la lo) atms)))"
proof (cases "r = HttpResponse 200 (Some \<lparr>origin_to_destination = None\<rparr>)")
  case True
  then have "gebetaOneToMany http la lo (closest10_of err la lo atms)
             = Resolved \<lparr>origin_to_destination = None\<rparr>"
    using assms(1) by (simp add: gebetaOneToMany_Resolved)
  then show ?thesis
    by (rule getNearestATMs_no_array) simp
next
  case False
  then have "gebetaOneToMany http la lo (closest10_of err la lo atms) = Rejected"
    using assms by (simp add: gebetaOneToMany_Rejected Let_def)
  then show ?thesis
    by (rule getNearestATMs_Rejected)
qed

lemma getNearestATMs_part0_failure:
  assumes "r = http ((lo, la), map (\<lambda>d. (lon d, lat d)) atms)"
    and "r = NetworkError \<or> (\<exists>st b. r = HttpResponse st b \<and> st \<noteq> 200)
         \<or> r = HttpResponse 200 None
         \<or> r = HttpResponse 200 (Some \<lparr>routes = None\<rparr>)"
  shows "getNearestATMs_part0 err http atms la lo limit =
           Haversine (slice0 (js_sort by_distance (map (withDistance err la lo) atms)) limit)"
proof (cases "r = HttpResponse 200 (Some \<lparr>routes = None\<rparr>)")
  case True
  then have "gebetaOneToMany_part0 http lo la atms = Resolved \<lparr>routes = None\<rparr>"
    using assms(1) by (simp add: gebetaOneToMany_part0_Resolved)
  then show ?thesis
    by (simp add: getNearestATMs_part0_Resolved)
next
  case False
  then have "gebetaOneToMany_part0 http lo la atms = Rejected"
    using assms by (simp add: gebetaOneToMany_part0_Rejected Let_def)
  then show ?thesis
    by (rule getNearestATMs_part0_Rejected)
qed






subsection \<open>Failure of the routing call\<close>











subsection \<open>Size and order of the ranking\<close>

text \<open>The size of the ranking is \<open>min K |catalog|\<close> on every path.\<close>

lemma getNearestATMs_length:
  "length (distances (getNearestATMs err http atms la lo)) = min 5 (length atms)"
  using getNearestATMs_cases[of err http atms la lo]
  by (auto simp: distances_def length_best5 length_closest10)

lemma getNearestATMs_part0_length:
  "0 \<le> limit \<Longrightarrow>
   length (distances (getNearestATMs_part0 err http atms la lo limit))
     = min (nat limit) (length atms)"
  using getNearestATMs_part0_cases[of err http atms la lo limit]
  by (auto simp: distances_def length_slice0 length_js_sort)

text \<open>As long as no haversine distance is \<^verbatim>\<open>NaN\<close>, the shortlist is in non-decreasing
  order of distance and holds the ten nearest ATMs, and so is the fallback ranking.\<close>

lemma by_distance_minus: "by_distance = (\<lambda>a b. minus_number (distance a) (distance b))"
  by (intro ext) (simp add: by_distance_def)

lemma distance_withDistance:
  "distance (withDistance err la lo a) = calculateDistance err la lo (lat a) (lon a)"
  by (simp add: withDistance_def)

lemma closest10_nondecreasing:
  assumes "\<forall>a \<in> set atms. calculateDistance err la lo (lat a) (lon a) \<noteq> NaN"
  shows "nondecreasing (map distance (closest10_of err la lo atms))"
  unfolding closest10_of_def by_distance_minus
  by (rule nondecreasing_take_js_sort) (simp add: distance_withDistance assms)

lemma haversine_ranking_nondecreasing:
  assumes "\<forall>a \<in> set atms. calculateDistance err la lo (lat a) (lon a) \<noteq> NaN"
  shows "nondecreasing (map distance (take n (js_sort by_distance (map (withDistance err la lo) atms))))"
  unfolding by_distance_minus
  by (rule nondecreasing_take_js_sort) (simp add: distance_withDistance assms)

lemma closest10_nearest:
  assumes "\<forall>a \<in> set atms. calculateDistance err la lo (lat a) (lon a) \<noteq> NaN"
  shows "\<exists>rest. set (closest10_of err la lo atms) \<union> set rest
                  = set (map (withDistance err la lo) atms)
               \<and> length (closest10_of err la lo atms) + length rest = length atms
               \<and> (\<forall>x \<in> set (closest10_of err la lo atms). \<forall>y \<in> set rest.
                     number_le (distance x) (distance y))"
proof -
  let ?ws = "map (withDistance err la lo) atms"
  let ?r = "\<lambda>z::located_atm. real_of (distance z)"
  have nn: "\<forall>z \<in> set ?ws. distance z \<noteq> NaN"
    using assms by (simp add: distance_withDistance)
  have s: "js_sort by_distance ?ws = sort_key ?r ?ws"
    unfolding by_distance_minus using nn by (rule js_sort_sort_key)
  let ?all = "sort_key ?r ?ws"
  have c: "closest10_of err la lo atms = take 10 ?all"
    by (simp add: closest10_of_def s)
  have "sorted (map ?r (take 10 ?all @ drop 10 ?all))"
    by simp
  then have le: "\<forall>x \<in> set (take 10 ?all). \<forall>y \<in> set (drop 10 ?all). ?r x \<le> ?r y"
    unfolding map_append sorted_append by auto
  have num: "distance z = Num (?r z)" if "z \<in> set ?all" for z
    using that nn by (auto intro: number_eq_real_of)
  have "\<forall>x \<in> set (take 10 ?all). \<forall>y \<in> set (drop 10 ?all). number_le (distance x) (distance y)"
  proof (intro ballI)
    fix x y assume x: "x \<in> set (take 10 ?all)" and y: "y \<in> set (drop 10 ?all)"
    have dx: "distance x = Num (?r x)"
      using x by (intro num) (auto dest: in_set_takeD)
    have dy: "distance y = Num (?r y)"
      using y by (intro num) (auto dest: in_set_dropD)
    have rle: "?r x \<le> ?r y"
      using le x y by blast
    show "number_le (distance x) (distance y)"
      by (subst dx, subst dy) (simp add: rle)
  qed
  moreover have "set (take 10 ?all) \<union> set (drop 10 ?all) = set ?ws"
    using set_append[of "take 10 ?all" "drop 10 ?all"] by simp
  moreover have "length (take 10 ?all) + length (drop 10 ?all) = length atms"
    by simp
  ultimately show ?thesis
    unfolding c by blast
qed

subsection \<open>The reference point at an antipode\<close>

lemma antipode_first:
  "calculateDistance example_rounding (- (184 / 25)) (- 142) (184 / 25) 38 = NaN"
  using calculateDistance_antipode[of example_rounding "184 / 25" 38]
  by (simp add: example_rounding_def)

lemma antipode_second:
  "calculateDistance example_rounding (- (184 / 25)) (- 142) 7 39
   = Num (great_circle_distance (- (184 / 25)) (- 142) 7 39)"
  by (rule calculateDistance_exact)
     (simp_all add: example_rounding_def haversine_term_le_1 haversine_term_ge_0)

lemma antipode_sorted:
  "js_sort by_distance
     (map (withDistance example_rounding (- (184 / 25)) (- 142)) example_antipode_atms)
   = [\<lparr>atm_id = ''1'', name = ''Bank-Piasa'', lat = 184 / 25, lon = 38, distance = NaN\<rparr>,
      \<lparr>atm_id = ''2'', name = ''Bank-Atote'', lat = 7, lon = 39,
         distance = Num (great_circle_distance (- (184 / 25)) (- 142) 7 39)\<rparr>]"
  by (simp add: example_antipode_atms_def withDistance_def antipode_first antipode_second
      js_sort_def by_distance_def)

text \<open>The routing request of \<^verbatim>\<open>src/bot.js\<close> carries the shortlist and nothing else of the
  catalog: the result depends on the network only through the answer to that request,
  and every ATM returned is one of the shortlist.\<close>

lemma getNearestATMs_http_cong:
  assumes "http' ((la, lo), map (\<lambda>d. (lat d, lon d)) (closest10_of err la lo atms))
           = http ((la, lo), map (\<lambda>d. (lat d, lon d)) (closest10_of err la lo atms))"
  shows "getNearestATMs err http' atms la lo = getNearestATMs err http atms la lo"
  using assms by (simp add: getNearestATMs_def gebetaOneToMany_def)

lemma truncate_withApiDistance: "atm.truncate (withApiDistance otd a idx) = atm.truncate a"
  by (simp add: withApiDistance_def Let_def atm.truncate_def)

lemma truncate_distance_update: "atm.truncate (a\<lparr>distance := d\<rparr>) = atm.truncate a"
  by (simp add: atm.truncate_def)

lemma atms_best5_subset:
  "set (map atm.truncate (map (\<lambda>a. a\<lparr>distance := to_number (apiDistance a)\<rparr>) (best5_of otd c)))
     \<subseteq> set (map atm.truncate c)"
proof -
  let ?w = "map (\<lambda>(idx, a). withApiDistance otd a idx) (enumerate 0 c)"
  have 1: "map atm.truncate (map (\<lambda>a. a\<lparr>distance := to_number (apiDistance a)\<rparr>) (best5_of otd c))
           = map atm.truncate (take 5 (js_sort by_apiDistance ?w))"
    by (simp add: best5_of_def Let_def truncate_distance_update)
  have "set (take 5 (js_sort by_apiDistance ?w)) \<subseteq> set (js_sort by_apiDistance ?w)"
    by (rule set_take_subset)
  then have 2: "set (map atm.truncate (take 5 (js_sort by_apiDistance ?w)))
                \<subseteq> set (map atm.truncate ?w)"
    by (auto simp: set_js_sort)
  have "map atm.truncate ?w = map (\<lambda>p. atm.truncate (snd p)) (enumerate 0 c)"
    by (simp add: truncate_withApiDistance split_def o_def)
  also have "\<dots> = map atm.truncate (map snd (enumerate 0 c))"
    by (simp only: map_map o_def)
  also have "\<dots> = map atm.truncate c"
    by (simp only: map_snd_enumerate)
  finally have 3: "map atm.truncate ?w = map atm.truncate c" .
  show ?thesis
    using 2 unfolding 1 3 .
qed

lemma getNearestATMs_atms_subset:
  "set (atms_of (getNearestATMs err http atms la lo))
     \<subseteq> set (map atm.truncate (closest10_of err la lo atms))"
proof -
  let ?c = "closest10_of err la lo atms"
  consider (haversine) "getNearestATMs err http atms la lo = Haversine (take 5 ?c)"
    | (refined) otd where "getNearestATMs err http atms la lo =
        Refined (map (\<lambda>a. a\<lparr>distance := to_number (apiDistance a)\<rparr>) (best5_of otd ?c))"
    using getNearestATMs_cases[of err http atms la lo] by blast
  then show ?thesis
  proof cases
    case haversine
    have "set (map atm.truncate (take 5 ?c)) \<subseteq> set (map atm.truncate ?c)"
      using set_take_subset[of 5 ?c] by auto
    moreover have "atms_of (getNearestATMs err http atms la lo) = map atm.truncate (take 5 ?c)"
      by (simp add: haversine atms_of_def)
    ultimately show ?thesis by (simp only:)
  next
    case refined
    have "atms_of (getNearestATMs err http atms la lo)
          = map atm.truncate (map (\<lambda>a. a\<lparr>distance := to_number (apiDistance a)\<rparr>) (best5_of otd ?c))"
      by (simp add: refined atms_of_def)
    then show ?thesis
      using atms_best5_subset[of otd ?c] by (simp only:)
  qed
qed

text \<open>As long as no \<^verbatim>\<open>apiDistance\<close> counts as \<^verbatim>\<open>NaN\<close>, the refined list is in
  non-decreasing order of the distance it returns.\<close>

lemma by_apiDistance_minus:
  "by_apiDistance = (\<lambda>a b. minus_number (to_number (apiDistance a)) (to_number (apiDistance b)))"
  by (intro ext) (simp add: by_apiDistance_def)

lemma refined_nondecreasing:
  assumes "\<forall>x \<in> set (map (\<lambda>(idx, a). withApiDistance otd a idx) (enumerate 0 c)).
             to_number (apiDistance x) \<noteq> NaN"
  shows "nondecreasing
           (map distance (map (\<lambda>a. a\<lparr>distance := to_number (apiDistance a)\<rparr>) (best5_of otd c)))"
proof -
  let ?w = "map (\<lambda>(idx, a). withApiDistance otd a idx) (enumerate 0 c)"
  have "map distance (map (\<lambda>a. a\<lparr>distance := to_number (apiDistance a)\<rparr>) (best5_of otd c))
        = map (\<lambda>a. to_number (apiDistance a)) (take 5 (js_sort by_apiDistance ?w))"
    by (simp add: best5_of_def Let_def)
  moreover have "nondecreasing (map (\<lambda>a. to_number (apiDistance a))
                   (take 5 (js_sort by_apiDistance ?w)))"
    unfolding by_apiDistance_minus using assms by (rule nondecreasing_take_js_sort)
  ultimately show ?thesis by (simp only:)
qed

lemma nondecreasing_slice0_js_sort:
  assumes "\<forall>z \<in> set xs. k z \<noteq> NaN"
  shows "nondecreasing (map k (slice0 (js_sort (\<lambda>a b. minus_number (k a) (k b)) xs) limit))"
  unfolding slice0_def using nondecreasing_take_js_sort[OF assms] by simp

lemma part0_refined_nondecreasing:
  assumes "\<forall>x \<in> set (map (\<lambda>(idx, a). withRoute rs a idx) (enumerate 0 atms)). distance x \<noteq> NaN"
  shows "nondecreasing
           (map distance (slice0 (js_sort by_distance
              (map (\<lambda>(idx, a). withRoute rs a idx) (enumerate 0 atms))) limit))"
  unfolding by_distance_minus using assms by (rule nondecreasing_slice0_js_sort)

lemma antipode_second_nearer:
  "great_circle_distance (- (184 / 25)) (- 142) 7 39 < 6371 * pi"
proof -
  let ?h = "haversine_term (- (184 / 25)) (- 142) 7 39"
  let ?p = "- (184 / 25) * pi / 180" and ?q = "7 * pi / 180 :: real"
  let ?d = "(7 - - (184 / 25)) * pi / 180 / 2 :: real"
  let ?x = "(39 - - 142) * pi / 180 / 2 :: real"
  have x: "?x = pi / 2 + pi / 360"
    by (simp add: field_simps)
  have "sin ?x = cos (pi / 360)"
    unfolding x by (simp only: sin_add sin_pi_half cos_pi_half)
  moreover have "cos (pi / 360) < cos 0"
    by (subst cos_mono_less_eq) (simp_all add: field_simps)
  moreover have "0 \<le> cos (pi / 360)"
    by (rule cos_ge_zero) (simp_all add: field_simps)
  ultimately have s: "0 \<le> sin ?x" "sin ?x < 1"
    by simp_all
  then have L: "(sin ?x)\<^sup>2 < 1"
    by (simp add: power_less_one_iff)
  have cp: "0 < cos ?p"
    by (rule cos_gt_zero_pi) (simp_all add: field_simps)
  have cq: "0 < cos ?q"
    by (rule cos_gt_zero_pi) (simp_all add: field_simps)
  have A: "cos ?p * cos ?q * (sin ?x)\<^sup>2 < cos ?p * cos ?q * 1"
    using cp cq L by (intro mult_strict_left_mono) simp_all
  have d: "?d = (?q - ?p) / 2"
    by (simp add: field_simps)
  have B: "cos ?p * cos ?q \<le> (cos ?d)\<^sup>2"
    unfolding d by (rule cos_product_le)
  have C: "(sin ?d)\<^sup>2 + (cos ?d)\<^sup>2 = 1"
    by (rule sin_cos_squared_add)
  have "?h = (sin ?d)\<^sup>2 + cos ?p * cos ?q * (sin ?x)\<^sup>2"
    unfolding haversine_term_def ..
  then have h1: "?h < 1"
    using A B C by linarith
  have h0: "0 \<le> ?h"
    by (rule haversine_term_ge_0) simp_all
  have sq: "0 \<le> sqrt ?h" "sqrt ?h < 1"
    using h0 h1 by (simp_all add: real_sqrt_lt_1_iff)
  have m1: "- 1 \<le> sqrt ?h"
    using sq(1) by linarith
  have "arcsin (sqrt ?h) < arcsin 1"
    using m1 sq(2) by (rule arcsin_less_arcsin) simp
  then show ?thesis
    by (simp add: great_circle_distance_def)
qed

text \<open>
  Claim C6 fails on the code at a reference point at the antipode of an ATM. With two
  ATMs in the catalog and the user at latitude -7.36, longitude -142, the haversine
  term of the first ATM is above 1 in doubles, its distance is \<^verbatim>\<open>NaN\<close>, the
  comparator returns \<^verbatim>\<open>NaN\<close> and the ranking comes back as \<open>[NaN, 19897.7...]\<close>: it has
  its \<open>min K |catalog|\<close> = 2 entries, and they are not in non-decreasing order of
  distance. Both variants, here with the routing service down.
\<close>

theorem getNearestATMs_antipode_not_sorted:
  "distances (getNearestATMs example_rounding example_offline example_antipode_atms
                (- (184 / 25)) (- 142))
     = [NaN, Num (great_circle_distance (- (184 / 25)) (- 142) 7 39)]
   \<and> \<not> nondecreasing
         (distances (getNearestATMs example_rounding example_offline example_antipode_atms
                       (- (184 / 25)) (- 142)))
   \<and> length (distances (getNearestATMs example_rounding example_offline example_antipode_atms
                           (- (184 / 25)) (- 142)))
       = min 5 (length example_antipode_atms)
   \<and> distances (getNearestATMs_part0 example_rounding example_offline example_antipode_atms
                   (- (184 / 25)) (- 142) 5)
       = [NaN, Num (great_circle_distance (- (184 / 25)) (- 142) 7 39)]
   \<and> \<not> nondecreasing
         (distances (getNearestATMs_part0 example_rounding example_offline
                       example_antipode_atms (- (184 / 25)) (- 142) 5))"
proof -
  have a: "getNearestATMs example_rounding example_offline example_antipode_atms
             (- (184 / 25)) (- 142)
           = Haversine (take 5 (js_sort by_distance
               (map (withDistance example_rounding (- (184 / 25)) (- 142)) example_antipode_atms)))"
    by (rule getNearestATMs_failure[where r = NetworkError]) (simp_all add: example_offline_def)
  have b: "getNearestATMs_part0 example_rounding example_offline example_antipode_atms
             (- (184 / 25)) (- 142) 5
           = Haversine (slice0 (js_sort by_distance
               (map (withDistance example_rounding (- (184 / 25)) (- 142)) example_antipode_atms)) 5)"
    by (rule getNearestATMs_part0_failure[where r = NetworkError])
       (simp_all add: example_offline_def)
  have l: "length example_antipode_atms = 2"
    by (simp add: example_antipode_atms_def)
  show ?thesis
    by (simp add: a b antipode_sorted slice0_def distances_def l)
qed

text \<open>
  Claim C2 fails on the code at the same reference point. The great-circle distance
  from there to the first ATM is \<open>6371 \<pi>\<close> km, the greatest there is, and the second ATM
  is nearer; \<^verbatim>\<open>getNearestATMs\<close> of \<^verbatim>\<open>src/bot.js\<close> computes \<^verbatim>\<open>NaN\<close> for the first ATM, and
  its shortlist has the first ATM before the second: the distance is not the
  great-circle distance and the shortlist is not in ascending order.
\<close>

theorem closest10_antipode_not_ascending:
  "calculateDistance example_rounding (- (184 / 25)) (- 142) (184 / 25) 38 = NaN
   \<and> great_circle_distance (- (184 / 25)) (- 142) (184 / 25) 38 = 6371 * pi
   \<and> great_circle_distance (- (184 / 25)) (- 142) 7 39 < 6371 * pi
   \<and> map atm_id (closest10_of example_rounding (- (184 / 25)) (- 142) example_antipode_atms)
       = [''1'', ''2'']
   \<and> map distance (closest10_of example_rounding (- (184 / 25)) (- 142) example_antipode_atms)
       = [NaN, Num (great_circle_distance (- (184 / 25)) (- 142) 7 39)]
   \<and> \<not> nondecreasing
         (map distance
            (closest10_of example_rounding (- (184 / 25)) (- 142) example_antipode_atms))"
proof -
  have g: "great_circle_distance (- (184 / 25)) (- 142) (184 / 25) 38 = 6371 * pi"
    using great_circle_distance_antipode[of "184 / 25" 38] by simp
  show ?thesis
    using antipode_second_nearer
    by (simp add: antipode_first g closest10_of_def antipode_sorted)
qed

end
